theory Spec2Isabelle
  imports Main "HOL-Library.Char_ord" "HOL-Library.List_Lexorder" "HOL-Library.Sublist"
begin

section \<open>Python values and result dicts\<close>

text \<open>
  The orchestrator (\<^verbatim>\<open>src/orchestrator.py\<close>) handles the dicts that checker functions
  return. A dict value is \<^verbatim>\<open>None\<close>, a \<^verbatim>\<open>str\<close>, or some other hashable object, which the
  orchestrator only ever compares for equality; \<open>POther n\<close> stands for such an object,
  two of them being equal exactly when their numbers are. The contents of a result dict
  are a finite map from string keys to values: the order of the keys inside one dict is
  never observed by the orchestrator. A \<^verbatim>\<open>str\<close> is the list of the bytes of its UTF-8
  encoding, which keeps equality, the order of \<^verbatim>\<open>sorted\<close>, \<^verbatim>\<open>startswith\<close> and
  containment as they are on the code points.
\<close>

datatype pyval = PNone | PStr string | POther nat

type_synonym result_dict = "string \<rightharpoonup> pyval"

section \<open>Aggregation and query: \<^verbatim>\<open>get_summary_by_status\<close>, \<^verbatim>\<open>filter_results\<close>\<close>

text \<open>
  \<^verbatim>\<open>
  summary = {}
  for result in results:
      status = result.get("check_status", "unknown")
      summary[status] = summary.get(status, 0) + 1
  return summary
  \<close>
\<close>

definition status_of :: "result_dict \<Rightarrow> pyval" where
  "status_of r = (case r ''check_status'' of None \<Rightarrow> PStr ''unknown'' | Some v \<Rightarrow> v)"

definition count_status :: "(pyval \<rightharpoonup> nat) \<Rightarrow> result_dict \<Rightarrow> (pyval \<rightharpoonup> nat)" where
  "count_status summary r =
     summary(status_of r \<mapsto> (case summary (status_of r) of None \<Rightarrow> 0 | Some n \<Rightarrow> n) + 1)"

definition get_summary_by_status :: "result_dict list \<Rightarrow> (pyval \<rightharpoonup> nat)" where
  "get_summary_by_status results = fold (\<lambda>r summary. count_status summary r) results Map.empty"

text \<open>
  \<^verbatim>\<open>
  filtered = results
  if status:
      filtered = [r for r in filtered if r.get("check_status") == status]
  if element_type:
      filtered = [r for r in filtered if r.get("element_type") == element_type]
  return filtered
  \<close>
  A criterion is \<^verbatim>\<open>None\<close> (the default) or a \<^verbatim>\<open>str\<close>; Python's truth test \<^verbatim>\<open>if status:\<close>
  is false for \<^verbatim>\<open>None\<close> and for the empty string.
\<close>

definition filter_results ::
  "result_dict list \<Rightarrow> string option \<Rightarrow> string option \<Rightarrow> result_dict list" where
  "filter_results results status element_type =
     (let filtered = results;
          filtered = (case status of
                        None \<Rightarrow> filtered
                      | Some st \<Rightarrow>
                          if st \<noteq> []
                          then filter (\<lambda>r. r ''check_status'' = Some (PStr st)) filtered
                          else filtered);
          filtered = (case element_type of
                        None \<Rightarrow> filtered
                      | Some et \<Rightarrow>
                          if et \<noteq> []
                          then filter (\<lambda>r. r ''element_type'' = Some (PStr et)) filtered
                          else filtered)
      in filtered)"

section \<open>Strings and ordered dicts\<close>

text \<open>
  \<^verbatim>\<open>name.startswith(p)\<close> is \<^const>\<open>prefix\<close>, and \<^verbatim>\<open>a in b\<close> on strings is
  \<^const>\<open>sublist\<close> (a contiguous run), both from the list library.

  \<^verbatim>\<open>str.lower()\<close> belongs to the Python runtime, not to the repository, and follows the
  Unicode tables. \<^verbatim>\<open>run\<close> therefore takes it as its first argument, a function on
  strings, and everything proved of \<^verbatim>\<open>run\<close> holds whatever this function is. On ASCII
  strings it is \<open>ascii_lower\<close>, which maps \<^verbatim>\<open>A..Z\<close> to \<^verbatim>\<open>a..z\<close>; the concrete inputs
  below are ASCII and are run with \<open>ascii_lower\<close>.
\<close>

definition lower_char :: "char \<Rightarrow> char" where
  "lower_char c =
     (case map_of (zip ''ABCDEFGHIJKLMNOPQRSTUVWXYZ'' ''abcdefghijklmnopqrstuvwxyz'') c of
        None \<Rightarrow> c
      | Some l \<Rightarrow> l)"

definition ascii_lower :: "string \<Rightarrow> string" where
  "ascii_lower s = map lower_char s"

text \<open>
  \<^verbatim>\<open>Path.glob("checker_*.py")\<close>: the name starts with \<^verbatim>\<open>checker_\<close> and what follows
  ends with \<^verbatim>\<open>.py\<close>.
\<close>

definition glob_match :: "string \<Rightarrow> bool" where
  "glob_match n \<longleftrightarrow> prefix ''checker_'' n \<and> suffix ''.py'' (drop 8 n)"

text \<open>
  A Python dict keeps its keys in insertion order. \<^verbatim>\<open>d[k] = v\<close> replaces the value in
  place when \<open>k\<close> is already a key and appends the pair otherwise.
\<close>

fun dict_set :: "'a \<Rightarrow> 'b \<Rightarrow> ('a \<times> 'b) list \<Rightarrow> ('a \<times> 'b) list" where
  "dict_set k v [] = [(k, v)]"
| "dict_set k v ((k', v') # d) =
     (if k' = k then (k', v) # d else (k', v') # dict_set k v d)"

text \<open>The dict comprehension \<^verbatim>\<open>{k: v for k, v in pairs}\<close>.\<close>

definition dict_of_pairs :: "('a \<times> 'b) list \<Rightarrow> ('a \<times> 'b) list" where
  "dict_of_pairs ps = fold (\<lambda>(k, v) d. dict_set k v d) ps []"

section \<open>Exceptions\<close>

text \<open>
  Both \<^verbatim>\<open>try\<close> blocks of the orchestrator end with
  \<^verbatim>\<open>except Exception as e:\<close> and a handler that formats \<^verbatim>\<open>str(e)\<close>. An exception raised
  inside such a block is therefore of one of two kinds. \<open>Caught msg\<close> is an instance of
  \<^verbatim>\<open>Exception\<close> whose \<^verbatim>\<open>str(e)\<close> is \<open>msg\<close>: the handler runs to its end. \<open>Uncaught x\<close> is
  anything that gets past the handler and leaves the method: a \<^verbatim>\<open>BaseException\<close> that
  is no \<^verbatim>\<open>Exception\<close> (\<^verbatim>\<open>SystemExit\<close>, \<^verbatim>\<open>KeyboardInterrupt\<close>), which the clause does not
  catch, or an exception whose \<^verbatim>\<open>__str__\<close> raises when the handler formats it; \<open>x\<close>
  names what then propagates.
\<close>

datatype pyexc = Caught string | Uncaught string

datatype orchestrator_error =
    ToolsDirNotFound string
  | FailedToLoad string string
  | NoCheckersDiscovered
  | ModelNotIfcFile

text \<open>
  How a method of the orchestrator ends when it does not return: with an
  \<^verbatim>\<open>OrchestratorError\<close> that it raises itself, or with a foreign exception that passes
  through it.
\<close>

datatype raised = OrchestratorError orchestrator_error | Propagated string

section \<open>Checker functions, modules and the tools directory\<close>

text \<open>
  What a call \<^verbatim>\<open>func_obj(model, **kwargs)\<close> can do: raise an exception, or return an
  object, which is a list or is not (kept as the name of its type); a list element is a
  dict or is not. A dict is an object: \<open>Dict oid d\<close> is the dict object with identity
  \<open>oid\<close> (its \<^verbatim>\<open>id()\<close>), whose contents are \<open>d\<close> when the list is returned. Two elements
  with the same identity are the same object, returned twice, by one call or by two.

  A checker is modelled as a function of the model and the keyword arguments: the call
  ends (by returning or by raising), the same call gives the same outcome, and apart
  from possibly returning it again a checker does not change a dict that is already in
  the results.
\<close>

datatype pyelem = Dict nat result_dict | NotDict string

datatype pyobj = PyList "pyelem list" | NotList string

datatype outcome = Returns pyobj | Raises pyexc

text \<open>The \<^verbatim>\<open>model\<close> argument: an \<^verbatim>\<open>ifcopenshell.file\<close> or any other object.\<close>

datatype 'm pymodel = IfcFile 'm | NotIfcFile

type_synonym ('m, 'k) rule = "'m pymodel \<Rightarrow> 'k \<Rightarrow> outcome"

text \<open>
  A loaded module is its namespace; \<^verbatim>\<open>inspect.getmembers\<close> returns the members as
  (name, value) pairs sorted by name.
\<close>

datatype ('m, 'k) member = Callable "('m, 'k) rule" | NotCallable

type_synonym ('m, 'k) pymodule = "(string \<times> ('m, 'k) member) list"

definition getmembers :: "('m, 'k) pymodule \<Rightarrow> (string \<times> ('m, 'k) member) list" where
  "getmembers module = sort_key fst module"

text \<open>
  What \<^verbatim>\<open>discover()\<close> reads from the file system: whether \<^verbatim>\<open>tools_dir\<close> exists and, if
  so, its entries, each a file name with what the \<^verbatim>\<open>try\<close> block of the loop does on it:
  \<^verbatim>\<open>_load_module\<close> raises (\<open>LoadFails\<close>); or it returns the module and
  \<^verbatim>\<open>inspect.getmembers\<close> lists its members (\<open>Loads\<close>); or it returns the module and
  \<^verbatim>\<open>inspect.getmembers\<close> raises on it (\<open>LoadsUnreadable\<close>).
\<close>

datatype ('m, 'k) load_result =
    LoadFails pyexc
  | Loads "('m, 'k) pymodule"
  | LoadsUnreadable "('m, 'k) pymodule" pyexc

type_synonym ('m, 'k) directory = "(string \<times> ('m, 'k) load_result) list option"

section \<open>The orchestrator's state and trace\<close>

text \<open>
  The exceptions caught around one checker: the checker's own, or one of the three
  \<^verbatim>\<open>ValueError\<close>s of the validation.
\<close>

datatype rule_error =
    RuleRaised string
  | NotAList string
  | ResultNotDict nat string
  | ResultMissingKeys nat "string set"

text \<open>One constructor for each line that the code appends to \<^verbatim>\<open>self.execution_log\<close>.\<close>

datatype log_line =
    LogScanning string
  | LogFoundFiles nat
  | LogNoFunctions string
  | LogFoundFunctions string "string list"
  | LogLoadFailed string string
  | LogBannerOpen
  | LogStart
  | LogBannerClose
  | LogRunning string
  | LogNoResults
  | LogResults nat
  | LogError rule_error
  | LogComplete
  | LogCheckersRun nat nat
  | LogCollected nat

record ('m, 'k) orchestrator =
  tools_dir :: string
  checkers :: "(string \<times> (string \<times> ('m, 'k) rule) list) list"
  loaded_modules :: "(string \<times> ('m, 'k) pymodule) list"
  execution_log :: "log_line list"

definition init_orchestrator :: "string \<Rightarrow> ('m, 'k) orchestrator" where
  "init_orchestrator dir =
     \<lparr>tools_dir = dir, checkers = [], loaded_modules = [], execution_log = []\<rparr>"

definition append_log :: "log_line \<Rightarrow> ('m, 'k) orchestrator \<Rightarrow> ('m, 'k) orchestrator" where
  "append_log l s = s\<lparr>execution_log := execution_log s @ [l]\<rparr>"

section \<open>\<^verbatim>\<open>discover\<close>\<close>

text \<open>
  \<^verbatim>\<open>
  checker_files = sorted([f for f in self.tools_dir.glob("checker_*.py")
                          if f.name != "checker_template.py"])
  \<close>
  The paths are those of one directory, so their order is the order of the file names,
  compared character by character.
\<close>

definition checker_files ::
  "(string \<times> ('m, 'k) load_result) list \<Rightarrow> (string \<times> ('m, 'k) load_result) list" where
  "checker_files entries =
     sort_key fst (filter (\<lambda>f. glob_match (fst f) \<and> fst f \<noteq> ''checker_template.py'') entries)"

text \<open>
  \<^verbatim>\<open>
  check_functions = [(name, obj) for name, obj in inspect.getmembers(module)
                     if name.startswith("check_") and callable(obj)]
  \<close>
\<close>

fun check_functions :: "(string \<times> ('m, 'k) member) list \<Rightarrow> (string \<times> ('m, 'k) rule) list" where
  "check_functions [] = []"
| "check_functions ((name, Callable f) # ms) =
     (if prefix ''check_'' name then (name, f) # check_functions ms else check_functions ms)"
| "check_functions ((name, NotCallable) # ms) = check_functions ms"

text \<open>
  The handler of the loop:
  \<^verbatim>\<open>
  except Exception as e:
      self.execution_log.append(f"  ... {checker_file.name}: {str(e)}")
      raise OrchestratorError(f"Failed to load {checker_file.name}: {str(e)}")
  \<close>
  An exception that it does not handle to its end leaves \<^verbatim>\<open>discover()\<close> as it is, with
  no line appended.
\<close>

fun load_failure ::
  "string \<Rightarrow> pyexc \<Rightarrow> ('m, 'k) orchestrator \<Rightarrow> raised option \<times> ('m, 'k) orchestrator" where
  "load_failure name (Caught msg) s =
     (Some (OrchestratorError (FailedToLoad name msg)), append_log (LogLoadFailed name msg) s)"
| "load_failure name (Uncaught x) s = (Some (Propagated x), s)"

text \<open>
  The loop over \<^verbatim>\<open>checker_files\<close>. The first file on which the \<^verbatim>\<open>try\<close> block raises
  ends it; the state it returns is the state at that moment, since the assignments to
  \<^verbatim>\<open>self.loaded_modules\<close> and \<^verbatim>\<open>self.checkers\<close> of the earlier iterations have been
  made, and so has the assignment \<^verbatim>\<open>self.loaded_modules[checker_file.name] = module\<close>
  of this iteration when it is \<^verbatim>\<open>inspect.getmembers\<close> that raises.
\<close>

fun load_files ::
  "(string \<times> ('m, 'k) load_result) list \<Rightarrow> ('m, 'k) orchestrator \<Rightarrow>
     raised option \<times> ('m, 'k) orchestrator" where
  "load_files [] s = (None, s)"
| "load_files ((name, LoadFails e) # fs) s = load_failure name e s"
| "load_files ((name, LoadsUnreadable module e) # fs) s =
     load_failure name e (s\<lparr>loaded_modules := dict_set name module (loaded_modules s)\<rparr>)"
| "load_files ((name, Loads module) # fs) s =
     (let s1 = s\<lparr>loaded_modules := dict_set name module (loaded_modules s)\<rparr>;
          cfs = check_functions (getmembers module)
      in if cfs = [] then load_files fs (append_log (LogNoFunctions name) s1)
         else load_files fs
                (append_log (LogFoundFunctions name (map fst cfs))
                   (s1\<lparr>checkers := dict_set name (dict_of_pairs cfs) (checkers s1)\<rparr>)))"

definition discover ::
  "('m, 'k) directory \<Rightarrow> ('m, 'k) orchestrator \<Rightarrow>
     (raised + (string \<times> string list) list) \<times> ('m, 'k) orchestrator" where
  "discover dir s =
     (case dir of
        None \<Rightarrow> (Inl (OrchestratorError (ToolsDirNotFound (tools_dir s))), s)
      | Some entries \<Rightarrow>
          (let s1 = append_log (LogScanning (tools_dir s)) s;
               files = checker_files entries;
               s2 = append_log (LogFoundFiles (length files)) s1
           in case load_files files s2 of
                (Some e, s3) \<Rightarrow> (Inl e, s3)
              | (None, s3) \<Rightarrow>
                  (Inr (map (\<lambda>(name, funcs). (name, map fst funcs)) (checkers s3)), s3)))"

section \<open>\<^verbatim>\<open>run\<close>\<close>

definition required_keys :: "string set" where
  "required_keys =
     {''element_id'', ''element_type'', ''element_name'', ''element_name_long'',
      ''check_status'', ''actual_value'', ''required_value'', ''comment'', ''log''}"

definition provenance_keys :: "string set" where
  "provenance_keys = {''_checker_file'', ''_checker_function''}"

definition full_name :: "string \<Rightarrow> string \<Rightarrow> string" where
  "full_name filename func_name = filename @ ''::'' @ func_name"

text \<open>
  \<^verbatim>\<open>
  result["_checker_file"] = filename
  result["_checker_function"] = func_name
  all_results.append(result)
  \<close>
  The two assignments change the dict object that the checker returned, and it is this
  object that is appended. \<open>add_metadata\<close> gives the new contents of the object.
  \<^verbatim>\<open>all_results\<close> is a list of objects, kept as pairs of an identity and the contents
  that the object has now: \<open>assign_object\<close> writes the new contents at every position
  where the list already holds the object, so that an object which is in the list twice
  shows the same contents at both positions, as it does in Python.
\<close>

definition add_metadata :: "string \<Rightarrow> string \<Rightarrow> result_dict \<Rightarrow> result_dict" where
  "add_metadata filename func_name result =
     result(''_checker_file'' \<mapsto> PStr filename, ''_checker_function'' \<mapsto> PStr func_name)"

definition assign_object ::
  "nat \<Rightarrow> result_dict \<Rightarrow> (nat \<times> result_dict) list \<Rightarrow> (nat \<times> result_dict) list" where
  "assign_object oid d objs = map (\<lambda>(o', c). if o' = oid then (o', d) else (o', c)) objs"

text \<open>The entries of \<^verbatim>\<open>execution_stats["checker_details"]\<close>.\<close>

datatype checker_detail = DetailSuccess string nat | DetailFailed string rule_error

fun detail_checker :: "checker_detail \<Rightarrow> string" where
  "detail_checker (DetailSuccess name n) = name"
| "detail_checker (DetailFailed name e) = name"

fun detail_status :: "checker_detail \<Rightarrow> string" where
  "detail_status (DetailSuccess name n) = ''success''"
| "detail_status (DetailFailed name e) = ''failed''"

text \<open>
  The variables that the loop of \<^verbatim>\<open>run\<close> updates: \<^verbatim>\<open>all_results\<close>, the four entries of
  \<^verbatim>\<open>execution_stats\<close>, and \<^verbatim>\<open>self.execution_log\<close> (here \<open>trace\<close>).
\<close>

record run_locals =
  all_results :: "(nat \<times> result_dict) list"
  stats_total :: nat
  stats_successful :: nat
  stats_failed :: nat
  stats_details :: "checker_detail list"
  trace :: "log_line list"

record run_summary =
  total_checkers :: nat
  successful_checkers :: nat
  failed_checkers :: nat
  total_results :: nat
  checker_details :: "checker_detail list"

text \<open>
  The report: \<open>results\<close> gives the contents, when \<^verbatim>\<open>run\<close> returns, of the objects of
  \<^verbatim>\<open>all_results\<close>, position by position.
\<close>

record run_report =
  results :: "result_dict list"
  summary :: run_summary
  log :: "log_line list"

text \<open>
  The loop \<^verbatim>\<open>for i, result in enumerate(results)\<close>: each element is validated and, when
  valid, tagged and appended to \<^verbatim>\<open>all_results\<close> in the same iteration. A \<^verbatim>\<open>ValueError\<close>
  at element \<open>i\<close> leaves the loop with \<^verbatim>\<open>all_results\<close> as the earlier iterations made it.
  An object that the list holds twice has been tagged by the first of its iterations
  when the second validates it; the names are the same in both, so the second finds
  the nine keys and leaves the contents as the first has made them.
\<close>

fun validate_results ::
  "string \<Rightarrow> string \<Rightarrow> nat \<Rightarrow> pyelem list \<Rightarrow> (nat \<times> result_dict) list \<Rightarrow>
     rule_error option \<times> (nat \<times> result_dict) list" where
  "validate_results filename func_name i [] acc = (None, acc)"
| "validate_results filename func_name i (NotDict t # rest) acc = (Some (ResultNotDict i t), acc)"
| "validate_results filename func_name i (Dict oid result # rest) acc =
     (let missing_keys = required_keys - dom result
      in if missing_keys \<noteq> {} then (Some (ResultMissingKeys i missing_keys), acc)
         else validate_results filename func_name (Suc i) rest
                (assign_object oid (add_metadata filename func_name result) acc @
                 [(oid, add_metadata filename func_name result)]))"

text \<open>
  The \<^verbatim>\<open>except Exception as e\<close> branch, when the handler runs to its end, and the end of
  the \<^verbatim>\<open>try\<close> block.
\<close>

definition checker_failed :: "string \<Rightarrow> rule_error \<Rightarrow> run_locals \<Rightarrow> run_locals" where
  "checker_failed name e st =
     st\<lparr>stats_failed := stats_failed st + 1,
        trace := trace st @ [LogError e],
        stats_details := stats_details st @ [DetailFailed name e]\<rparr>"

definition checker_succeeded :: "string \<Rightarrow> nat \<Rightarrow> run_locals \<Rightarrow> run_locals" where
  "checker_succeeded name n st =
     st\<lparr>stats_successful := stats_successful st + 1,
        stats_details := stats_details st @ [DetailSuccess name n]\<rparr>"

text \<open>
  The body of the inner loop for one selected checker function. The first component of
  what it returns is \<open>Some x\<close> when an exception \<open>x\<close> leaves the \<^verbatim>\<open>try\<close> statement, and
  with it \<^verbatim>\<open>run\<close>: the \<^verbatim>\<open>Running:\<close> line has been appended by then, and the handler
  appends nothing (it is not entered, or \<^verbatim>\<open>str(e)\<close> raises before its \<^verbatim>\<open>append\<close>).
\<close>

definition run_checker ::
  "'m pymodel \<Rightarrow> 'k \<Rightarrow> string \<Rightarrow> string \<times> ('m, 'k) rule \<Rightarrow> run_locals \<Rightarrow>
     string option \<times> run_locals" where
  "run_checker model kwargs filename nf st =
     (let func_name = fst nf;
          func_obj = snd nf;
          st1 = st\<lparr>stats_total := stats_total st + 1\<rparr>;
          name = full_name filename func_name;
          st2 = st1\<lparr>trace := trace st1 @ [LogRunning name]\<rparr>
      in case func_obj model kwargs of
           Raises (Uncaught x) \<Rightarrow> (Some x, st2)
         | Raises (Caught msg) \<Rightarrow> (None, checker_failed name (RuleRaised msg) st2)
         | Returns (NotList t) \<Rightarrow> (None, checker_failed name (NotAList t) st2)
         | Returns (PyList rs) \<Rightarrow>
             if rs = []
             then (None, checker_succeeded name 0 (st2\<lparr>trace := trace st2 @ [LogNoResults]\<rparr>))
             else (case validate_results filename func_name 0 rs (all_results st2) of
                     (Some e, acc) \<Rightarrow> (None, checker_failed name e (st2\<lparr>all_results := acc\<rparr>))
                   | (None, acc) \<Rightarrow>
                       (None, checker_succeeded name (length rs)
                                (st2\<lparr>all_results := acc,
                                     trace := trace st2 @ [LogResults (length rs)]\<rparr>))))"

text \<open>
  \<^verbatim>\<open>if checker_filter and checker_filter.lower() not in filename.lower(): continue\<close>,
  with \<open>lw\<close> for \<^verbatim>\<open>str.lower\<close>.
\<close>

definition skipped :: "(string \<Rightarrow> string) \<Rightarrow> string option \<Rightarrow> string \<Rightarrow> bool" where
  "skipped lw checker_filter filename =
     (case checker_filter of
        None \<Rightarrow> False
      | Some flt \<Rightarrow> flt \<noteq> [] \<and> \<not> sublist (lw flt) (lw filename))"

text \<open>
  The two loops, \<^verbatim>\<open>for func_name, func_obj in functions_dict.items()\<close> inside
  \<^verbatim>\<open>for filename, functions_dict in self.checkers.items()\<close>. An exception that leaves
  the body ends both.
\<close>

fun run_functions ::
  "(string \<Rightarrow> string) \<Rightarrow> 'm pymodel \<Rightarrow> string option \<Rightarrow> 'k \<Rightarrow> string \<Rightarrow>
     (string \<times> ('m, 'k) rule) list \<Rightarrow> run_locals \<Rightarrow> string option \<times> run_locals" where
  "run_functions lw model checker_filter kwargs filename [] st = (None, st)"
| "run_functions lw model checker_filter kwargs filename (nf # fs) st =
     (if skipped lw checker_filter filename
      then run_functions lw model checker_filter kwargs filename fs st
      else (case run_checker model kwargs filename nf st of
              (Some x, st') \<Rightarrow> (Some x, st')
            | (None, st') \<Rightarrow> run_functions lw model checker_filter kwargs filename fs st'))"

fun run_modules ::
  "(string \<Rightarrow> string) \<Rightarrow> 'm pymodel \<Rightarrow> string option \<Rightarrow> 'k \<Rightarrow>
     (string \<times> (string \<times> ('m, 'k) rule) list) list \<Rightarrow> run_locals \<Rightarrow>
     string option \<times> run_locals" where
  "run_modules lw model checker_filter kwargs [] st = (None, st)"
| "run_modules lw model checker_filter kwargs (fm # cs) st =
     (case run_functions lw model checker_filter kwargs (fst fm) (snd fm) st of
        (Some x, st') \<Rightarrow> (Some x, st')
      | (None, st') \<Rightarrow> run_modules lw model checker_filter kwargs cs st')"

text \<open>
  \<^verbatim>\<open>isinstance(model, ifcopenshell.file)\<close>, and \<^verbatim>\<open>run\<close> itself. The report's \<^verbatim>\<open>log\<close>
  is \<^verbatim>\<open>"\n".join(self.execution_log)\<close>; the model keeps the list of the lines. When an
  exception leaves the loop, \<^verbatim>\<open>run\<close> ends with it, and of what the loop did only the
  lines appended to \<^verbatim>\<open>self.execution_log\<close> remain.
\<close>

fun isinstance_ifc :: "'m pymodel \<Rightarrow> bool" where
  "isinstance_ifc (IfcFile m) = True"
| "isinstance_ifc NotIfcFile = False"

definition run ::
  "(string \<Rightarrow> string) \<Rightarrow> 'm pymodel \<Rightarrow> string option \<Rightarrow> 'k \<Rightarrow> ('m, 'k) orchestrator \<Rightarrow>
     (raised + run_report) \<times> ('m, 'k) orchestrator" where
  "run lw model checker_filter kwargs s =
     (if checkers s = [] then (Inl (OrchestratorError NoCheckersDiscovered), s)
      else if \<not> isinstance_ifc model then (Inl (OrchestratorError ModelNotIfcFile), s)
      else
        (let st0 = \<lparr>all_results = [], stats_total = 0, stats_successful = 0, stats_failed = 0,
                    stats_details = [],
                    trace = execution_log s @ [LogBannerOpen, LogStart, LogBannerClose]\<rparr>
         in case run_modules lw model checker_filter kwargs (checkers s) st0 of
              (Some x, st) \<Rightarrow> (Inl (Propagated x), s\<lparr>execution_log := trace st\<rparr>)
            | (None, st) \<Rightarrow>
                (let lines = trace st @
                       [LogBannerOpen, LogComplete,
                        LogCheckersRun (stats_successful st) (stats_total st),
                        LogCollected (length (all_results st)), LogBannerClose]
                 in (Inr \<lparr>results = map snd (all_results st),
                          summary = \<lparr>total_checkers = stats_total st,
                                     successful_checkers = stats_successful st,
                                     failed_checkers = stats_failed st,
                                     total_results = length (all_results st),
                                     checker_details = stats_details st\<rparr>,
                          log = lines\<rparr>,
                     s\<lparr>execution_log := lines\<rparr>))))"

text \<open>
  A sequence of calls on one orchestrator instance, whatever each call returns or
  raises.
\<close>

datatype ('m, 'k) call =
    Discover "('m, 'k) directory"
  | Run "'m pymodel" "string option" 'k

fun do_call ::
  "(string \<Rightarrow> string) \<Rightarrow> ('m, 'k) call \<Rightarrow> ('m, 'k) orchestrator \<Rightarrow> ('m, 'k) orchestrator" where
  "do_call lw (Discover dir) s = snd (discover dir s)"
| "do_call lw (Run model checker_filter kwargs) s = snd (run lw model checker_filter kwargs s)"

definition do_calls ::
  "(string \<Rightarrow> string) \<Rightarrow> ('m, 'k) call list \<Rightarrow> ('m, 'k) orchestrator \<Rightarrow>
     ('m, 'k) orchestrator" where
  "do_calls lw cs s = fold (do_call lw) cs s"

section \<open>Notions used in the statements about \<^verbatim>\<open>run\<close>\<close>

text \<open>
  The (module, function) pairs that the loop of \<^verbatim>\<open>run\<close> does not skip, in the order in
  which it meets them: the registry's modules in dict order, and inside a module its
  functions in dict order.
\<close>

definition selected ::
  "(string \<Rightarrow> string) \<Rightarrow> string option \<Rightarrow> (string \<times> (string \<times> ('m, 'k) rule) list) list \<Rightarrow>
     (string \<times> string \<times> ('m, 'k) rule) list" where
  "selected lw checker_filter cs =
     concat (map (\<lambda>(filename, fs).
                    if skipped lw checker_filter filename then []
                    else map (\<lambda>(func_name, func_obj). (filename, func_name, func_obj)) fs) cs)"

text \<open>
  The (module, function) pairs whose module file name contains the filter string, both
  put in lower case by \<open>lw\<close>, in registry order.
\<close>

definition matching ::
  "(string \<Rightarrow> string) \<Rightarrow> string \<Rightarrow> (string \<times> (string \<times> ('m, 'k) rule) list) list \<Rightarrow>
     (string \<times> string \<times> ('m, 'k) rule) list" where
  "matching lw flt cs =
     concat (map (\<lambda>(filename, fs).
                    if sublist (lw flt) (lw filename)
                    then map (\<lambda>(func_name, func_obj). (filename, func_name, func_obj)) fs
                    else []) cs)"

text \<open>The full names of a list of such pairs.\<close>

definition names_of :: "(string \<times> string \<times> ('m, 'k) rule) list \<Rightarrow> string list" where
  "names_of sel = map (\<lambda>(filename, func_name, func_obj). full_name filename func_name) sel"

text \<open>
  The dict objects among the elements of a returned list, in the order of the list:
  their contents, and their identities.
\<close>

fun dicts_of :: "pyelem list \<Rightarrow> result_dict list" where
  "dicts_of [] = []"
| "dicts_of (Dict oid d # es) = d # dicts_of es"
| "dicts_of (NotDict t # es) = dicts_of es"

fun ids_of :: "pyelem list \<Rightarrow> nat list" where
  "ids_of [] = []"
| "ids_of (Dict oid d # es) = oid # ids_of es"
| "ids_of (NotDict t # es) = ids_of es"

definition emitted :: "outcome \<Rightarrow> result_dict list" where
  "emitted out = (case out of Returns (PyList es) \<Rightarrow> dicts_of es | _ \<Rightarrow> [])"

definition returned_ids :: "outcome \<Rightarrow> nat list" where
  "returned_ids out = (case out of Returns (PyList es) \<Rightarrow> ids_of es | _ \<Rightarrow> [])"

text \<open>
  The checkers of a list return fresh dicts when no dict object is returned twice, by
  one call or by two. This is so when each call builds the dicts that it returns, as
  the checkers of \<^verbatim>\<open>src/tools\<close> do.
\<close>

definition fresh_dicts ::
  "'m pymodel \<Rightarrow> 'k \<Rightarrow> (string \<times> string \<times> ('m, 'k) rule) list \<Rightarrow> bool" where
  "fresh_dicts model kwargs sel =
     distinct (concat (map (\<lambda>(filename, func_name, func_obj).
                              returned_ids (func_obj model kwargs)) sel))"

text \<open>
  An outcome passes the validation when the checker returned a list whose elements are
  all dicts with the nine required keys.
\<close>

fun valid_elem :: "pyelem \<Rightarrow> bool" where
  "valid_elem (Dict oid d) = (required_keys \<subseteq> dom d)"
| "valid_elem (NotDict t) = False"

fun valid_output :: "outcome \<Rightarrow> bool" where
  "valid_output (Returns (PyList es)) = list_all valid_elem es"
| "valid_output (Returns (NotList t)) = False"
| "valid_output (Raises e) = False"

text \<open>
  The exception, if any, with which a call leaves \<^verbatim>\<open>run\<close>; and the error, if any, that
  the handler around the call records: the checker's own exception, or the
  \<^verbatim>\<open>ValueError\<close> of the first element that the validation rejects.
\<close>

fun escape_of :: "outcome \<Rightarrow> string option" where
  "escape_of (Raises (Uncaught x)) = Some x"
| "escape_of (Raises (Caught msg)) = None"
| "escape_of (Returns v) = None"

fun first_invalid :: "nat \<Rightarrow> pyelem list \<Rightarrow> rule_error option" where
  "first_invalid i [] = None"
| "first_invalid i (NotDict t # es) = Some (ResultNotDict i t)"
| "first_invalid i (Dict oid d # es) =
     (if required_keys - dom d \<noteq> {} then Some (ResultMissingKeys i (required_keys - dom d))
      else first_invalid (Suc i) es)"

fun caught_error :: "outcome \<Rightarrow> rule_error option" where
  "caught_error (Raises (Caught msg)) = Some (RuleRaised msg)"
| "caught_error (Raises (Uncaught x)) = None"
| "caught_error (Returns (NotList t)) = Some (NotAList t)"
| "caught_error (Returns (PyList es)) = first_invalid 0 es"

text \<open>
  What one call of a checker does to \<^verbatim>\<open>all_results\<close>: the list when the validation
  loop has ended, normally or by an exception. \<open>admitted\<close> gives the records that the
  call adds to an empty list.
\<close>

definition admit ::
  "string \<Rightarrow> string \<Rightarrow> outcome \<Rightarrow> (nat \<times> result_dict) list \<Rightarrow> (nat \<times> result_dict) list" where
  "admit filename func_name out acc =
     (case out of
        Returns (PyList es) \<Rightarrow> snd (validate_results filename func_name 0 es acc)
      | _ \<Rightarrow> acc)"

definition admitted :: "string \<Rightarrow> string \<Rightarrow> outcome \<Rightarrow> result_dict list" where
  "admitted filename func_name out = map snd (admit filename func_name out [])"

text \<open>\<^verbatim>\<open>all_results\<close> after the calls of a list of checkers, one after the other.\<close>

definition admit_all ::
  "'m pymodel \<Rightarrow> 'k \<Rightarrow> (string \<times> string \<times> ('m, 'k) rule) list \<Rightarrow>
     (nat \<times> result_dict) list \<Rightarrow> (nat \<times> result_dict) list" where
  "admit_all model kwargs sel acc =
     fold (\<lambda>(filename, func_name, func_obj). admit filename func_name (func_obj model kwargs))
       sel acc"

text \<open>
  The entry that one call adds to \<^verbatim>\<open>checker_details\<close>; there is none when the call's
  exception leaves \<^verbatim>\<open>run\<close>.
\<close>

definition detail_of :: "string \<Rightarrow> string \<Rightarrow> outcome \<Rightarrow> checker_detail list" where
  "detail_of filename func_name out =
     (case out of
        Raises (Uncaught x) \<Rightarrow> []
      | Raises (Caught msg) \<Rightarrow> [DetailFailed (full_name filename func_name) (RuleRaised msg)]
      | Returns (NotList t) \<Rightarrow> [DetailFailed (full_name filename func_name) (NotAList t)]
      | Returns (PyList es) \<Rightarrow>
          (case first_invalid 0 es of
             Some e \<Rightarrow> [DetailFailed (full_name filename func_name) e]
           | None \<Rightarrow> [DetailSuccess (full_name filename func_name) (length es)]))"

text \<open>The full names on the \<^verbatim>\<open>Running:\<close> lines of a trace: the invocations, in order.\<close>

fun running_names :: "log_line list \<Rightarrow> string list" where
  "running_names [] = []"
| "running_names (LogRunning name # ls) = name # running_names ls"
| "running_names (l # ls) = running_names ls"

text \<open>
  The inner loop body run over a list of selected checkers, up to the first call whose
  exception leaves the loop.
\<close>

fun run_selected ::
  "'m pymodel \<Rightarrow> 'k \<Rightarrow> (string \<times> string \<times> ('m, 'k) rule) list \<Rightarrow> run_locals \<Rightarrow>
     string option \<times> run_locals" where
  "run_selected model kwargs [] st = (None, st)"
| "run_selected model kwargs ((filename, func_name, func_obj) # sel) st =
     (case run_checker model kwargs filename (func_name, func_obj) st of
        (Some x, st') \<Rightarrow> (Some x, st')
      | (None, st') \<Rightarrow> run_selected model kwargs sel st')"

text \<open>
  The first exception that leaves a call, among the calls of a list of checkers, and
  the checkers that are called: those up to the call that it leaves, or all of them.
\<close>

fun first_escape ::
  "'m pymodel \<Rightarrow> 'k \<Rightarrow> (string \<times> string \<times> ('m, 'k) rule) list \<Rightarrow> string option" where
  "first_escape model kwargs [] = None"
| "first_escape model kwargs ((filename, func_name, func_obj) # sel) =
     (case escape_of (func_obj model kwargs) of
        Some x \<Rightarrow> Some x
      | None \<Rightarrow> first_escape model kwargs sel)"

fun called ::
  "'m pymodel \<Rightarrow> 'k \<Rightarrow> (string \<times> string \<times> ('m, 'k) rule) list \<Rightarrow>
     (string \<times> string \<times> ('m, 'k) rule) list" where
  "called model kwargs [] = []"
| "called model kwargs ((filename, func_name, func_obj) # sel) =
     (filename, func_name, func_obj) #
     (case escape_of (func_obj model kwargs) of
        Some x \<Rightarrow> []
      | None \<Rightarrow> called model kwargs sel)"

text \<open>The loop variables of \<^verbatim>\<open>run\<close> when its loop starts, and when it has ended.\<close>

definition start_locals :: "('m, 'k) orchestrator \<Rightarrow> run_locals" where
  "start_locals s =
     \<lparr>all_results = [], stats_total = 0, stats_successful = 0, stats_failed = 0,
      stats_details = [],
      trace = execution_log s @ [LogBannerOpen, LogStart, LogBannerClose]\<rparr>"

definition final_locals ::
  "(string \<Rightarrow> string) \<Rightarrow> 'm pymodel \<Rightarrow> string option \<Rightarrow> 'k \<Rightarrow> ('m, 'k) orchestrator \<Rightarrow>
     run_locals" where
  "final_locals lw model checker_filter kwargs s =
     snd (run_selected model kwargs (selected lw checker_filter (checkers s)) (start_locals s))"

text \<open>The five lines that \<^verbatim>\<open>run\<close> appends after its loop.\<close>

definition closing_lines :: "run_locals \<Rightarrow> log_line list" where
  "closing_lines st =
     [LogBannerOpen, LogComplete, LogCheckersRun (stats_successful st) (stats_total st),
      LogCollected (length (all_results st)), LogBannerClose]"

section \<open>Notions used in the statements about \<^verbatim>\<open>discover\<close>\<close>

text \<open>
  The registry entries that a list of files contributes: for each file that loads with
  at least one \<^verbatim>\<open>check_*\<close> callable, its name with the dict of these callables.
\<close>

definition rule_modules ::
  "(string \<times> ('m, 'k) load_result) list \<Rightarrow> (string \<times> (string \<times> ('m, 'k) rule) list) list" where
  "rule_modules files =
     concat (map (\<lambda>(name, r).
                    case r of
                      Loads module \<Rightarrow>
                        (if check_functions (getmembers module) = [] then []
                         else [(name, dict_of_pairs (check_functions (getmembers module)))])
                    | _ \<Rightarrow> [])
               files)"

text \<open>
  The entries of \<^verbatim>\<open>self.loaded_modules\<close> that a list of files contributes: every module
  that \<^verbatim>\<open>_load_module\<close> returned.
\<close>

definition loaded_of ::
  "(string \<times> ('m, 'k) load_result) list \<Rightarrow> (string \<times> ('m, 'k) pymodule) list" where
  "loaded_of files =
     concat (map (\<lambda>(name, r).
                    case r of
                      LoadFails e \<Rightarrow> []
                    | Loads module \<Rightarrow> [(name, module)]
                    | LoadsUnreadable module e \<Rightarrow> [(name, module)])
               files)"

text \<open>The lines that the loop of \<^verbatim>\<open>discover\<close> logs for a list of files that load.\<close>

definition found_lines :: "(string \<times> ('m, 'k) load_result) list \<Rightarrow> log_line list" where
  "found_lines files =
     concat (map (\<lambda>(name, r).
                    case r of
                      Loads module \<Rightarrow>
                        (if check_functions (getmembers module) = [] then [LogNoFunctions name]
                         else [LogFoundFunctions name
                                 (map fst (check_functions (getmembers module)))])
                    | _ \<Rightarrow> [])
               files)"

text \<open>The state with which the loop of \<^verbatim>\<open>discover\<close> starts.\<close>

definition scan_start ::
  "(string \<times> ('m, 'k) load_result) list \<Rightarrow> ('m, 'k) orchestrator \<Rightarrow> ('m, 'k) orchestrator" where
  "scan_start entries s =
     append_log (LogFoundFiles (length (checker_files entries)))
       (append_log (LogScanning (tools_dir s)) s)"

text \<open>Successive assignments \<^verbatim>\<open>d[k] = v\<close>, in the order of the list.\<close>

definition register :: "('a \<times> 'b) list \<Rightarrow> ('a \<times> 'b) list \<Rightarrow> ('a \<times> 'b) list" where
  "register es d = fold (\<lambda>(k, v) d. dict_set k v d) es d"

text \<open>
  A file loads when the \<^verbatim>\<open>try\<close> block of the loop raises nothing on it. Otherwise
  \<open>failure_of\<close> gives the exception that it raises.
\<close>

fun loads :: "string \<times> ('m, 'k) load_result \<Rightarrow> bool" where
  "loads (name, Loads module) = True"
| "loads (name, LoadFails e) = False"
| "loads (name, LoadsUnreadable module e) = False"

fun failure_of :: "('m, 'k) load_result \<Rightarrow> pyexc option" where
  "failure_of (Loads module) = None"
| "failure_of (LoadFails e) = Some e"
| "failure_of (LoadsUnreadable module e) = Some e"

text \<open>How \<^verbatim>\<open>discover\<close> ends on an exception of its loop, and the line that it then logs.\<close>

fun exit_of :: "string \<Rightarrow> pyexc \<Rightarrow> raised" where
  "exit_of name (Caught msg) = OrchestratorError (FailedToLoad name msg)"
| "exit_of name (Uncaught x) = Propagated x"

fun failure_lines :: "string \<Rightarrow> pyexc \<Rightarrow> log_line list" where
  "failure_lines name (Caught msg) = [LogLoadFailed name msg]"
| "failure_lines name (Uncaught x) = []"

section \<open>Concrete inputs\<close>

text \<open>
  The inputs at which the theorems below are evaluated: a complete result dict as the
  checkers of \<^verbatim>\<open>src/tools\<close> build it, variants of it, and a few checker functions.
\<close>

definition door_result :: "string \<Rightarrow> result_dict" where
  "door_result st =
     [''element_id'' \<mapsto> PStr ''id1'', ''element_type'' \<mapsto> PStr ''IfcDoor'',
      ''element_name'' \<mapsto> PStr ''Door 1'', ''element_name_long'' \<mapsto> PNone,
      ''check_status'' \<mapsto> PStr st, ''actual_value'' \<mapsto> PStr ''0.8m'',
      ''required_value'' \<mapsto> PStr ''0.8m'', ''comment'' \<mapsto> PNone, ''log'' \<mapsto> PNone]"

text \<open>
  Checker functions: one that returns one complete record, in a dict of the given
  identity; one whose second record lacks the key \<^verbatim>\<open>log\<close>; one that raises an
  \<^verbatim>\<open>Exception\<close>; one whose record carries a key beyond the nine; one that calls
  \<^verbatim>\<open>sys.exit()\<close>.
\<close>

definition check_ok :: "nat \<Rightarrow> (unit, unit) rule" where
  "check_ok oid model kwargs = Returns (PyList [Dict oid (door_result ''pass'')])"

definition check_partial :: "(unit, unit) rule" where
  "check_partial model kwargs =
     Returns (PyList [Dict 3 (door_result ''pass''),
                      Dict 4 ((door_result ''fail'')(''log'' := None))])"

definition check_raises :: "(unit, unit) rule" where
  "check_raises model kwargs = Raises (Caught ''boom'')"

definition check_extra :: "(unit, unit) rule" where
  "check_extra model kwargs =
     Returns (PyList [Dict 5 ((door_result ''pass'')(''note'' \<mapsto> PStr ''x''))])"

definition check_exits :: "(unit, unit) rule" where
  "check_exits model kwargs = Raises (Uncaught ''SystemExit'')"

text \<open>
  Two checker functions of one module that both return the module-level dict
  \<^verbatim>\<open>RESULT\<close>, the object 7: \<^verbatim>\<open>check_first\<close> is called first and finds it with the nine
  keys, \<^verbatim>\<open>check_second\<close> finds it as the first call has left it.
\<close>

definition check_first :: "(unit, unit) rule" where
  "check_first model kwargs = Returns (PyList [Dict 7 (door_result ''pass'')])"

definition check_second :: "(unit, unit) rule" where
  "check_second model kwargs =
     Returns (PyList [Dict 7 (add_metadata ''checker_shared.py'' ''check_first''
                                (door_result ''pass''))])"

text \<open>Modules holding them, and the entries of tools directories.\<close>

definition doors_module :: "(unit, unit) pymodule" where
  "doors_module =
     [(''ifcopenshell'', NotCallable), (''check_door_accessibility'', Callable (check_ok 11))]"

definition walls_module :: "(unit, unit) pymodule" where
  "walls_module = [(''check_wall_fire_rating'', Callable (check_ok 12))]"

definition rooms_module :: "(unit, unit) pymodule" where
  "rooms_module = [(''check_room_heights'', Callable check_partial)]"

definition stairs_module :: "(unit, unit) pymodule" where
  "stairs_module = [(''check_stair_dimensions'', Callable check_raises)]"

definition windows_module :: "(unit, unit) pymodule" where
  "windows_module = [(''check_window_thermal'', Callable check_extra)]"

definition exits_module :: "(unit, unit) pymodule" where
  "exits_module = [(''check_exit_signs'', Callable check_exits)]"

definition shared_module :: "(unit, unit) pymodule" where
  "shared_module =
     [(''RESULT'', NotCallable), (''check_second'', Callable check_second),
      (''check_first'', Callable check_first)]"

definition files_doors :: "(string \<times> (unit, unit) load_result) list" where
  "files_doors = [(''checker_doors.py'', Loads doors_module)]"

definition files_walls :: "(string \<times> (unit, unit) load_result) list" where
  "files_walls = [(''checker_walls.py'', Loads walls_module)]"

definition files_walls_doors :: "(string \<times> (unit, unit) load_result) list" where
  "files_walls_doors =
     [(''checker_walls.py'', Loads walls_module),
      (''checker_template.py'', LoadFails (Caught ''template'')),
      (''checker_doors.py'', Loads doors_module),
      (''README.md'', LoadFails (Caught ''not a module''))]"

definition files_broken :: "(string \<times> (unit, unit) load_result) list" where
  "files_broken =
     [(''checker_walls.py'', LoadFails (Caught ''invalid syntax'')),
      (''checker_doors.py'', Loads doors_module)]"

definition files_aborting :: "(string \<times> (unit, unit) load_result) list" where
  "files_aborting =
     [(''checker_walls.py'', LoadFails (Uncaught ''SystemExit'')),
      (''checker_doors.py'', Loads doors_module)]"

definition files_unreadable :: "(string \<times> (unit, unit) load_result) list" where
  "files_unreadable =
     [(''checker_walls.py'', LoadsUnreadable walls_module (Caught ''no members'')),
      (''checker_doors.py'', Loads doors_module)]"

definition files_rooms_stairs :: "(string \<times> (unit, unit) load_result) list" where
  "files_rooms_stairs =
     [(''checker_stairs.py'', Loads stairs_module),
      (''checker_rooms.py'', Loads rooms_module)]"

definition files_windows :: "(string \<times> (unit, unit) load_result) list" where
  "files_windows = [(''checker_windows.py'', Loads windows_module)]"

definition files_doors_exits :: "(string \<times> (unit, unit) load_result) list" where
  "files_doors_exits =
     [(''checker_exits.py'', Loads exits_module),
      (''checker_doors.py'', Loads doors_module),
      (''checker_walls.py'', Loads walls_module)]"

definition files_shared :: "(string \<times> (unit, unit) load_result) list" where
  "files_shared = [(''checker_shared.py'', Loads shared_module)]"

definition fresh :: "(unit, unit) orchestrator" where
  "fresh = init_orchestrator ''tools''"

section \<open>Properties of the query service\<close>

lemma fold_count_status:
  "fold (\<lambda>r summary. count_status summary r) rs m v =
     (let n = length (filter (\<lambda>r. status_of r = v) rs)
      in if n = 0 then m v else Some ((case m v of None \<Rightarrow> 0 | Some k \<Rightarrow> k) + n))"
proof (induction rs arbitrary: m)
  case Nil
  show ?case by simp
next
  case (Cons r rs)
  have step: "count_status m r v =
      (if status_of r = v then Some ((case m v of None \<Rightarrow> 0 | Some k \<Rightarrow> k) + 1) else m v)"
    by (auto simp: count_status_def)
  show ?case
    by (simp add: Cons.IH step Let_def)
qed

lemma get_summary_by_status_count:
  "get_summary_by_status rs v =
     (let n = length (filter (\<lambda>r. status_of r = v) rs) in if n = 0 then None else Some n)"
  by (simp add: get_summary_by_status_def fold_count_status Let_def)

lemma status_of_present:
  "r ''check_status'' \<noteq> None \<Longrightarrow> (status_of r = v) = (r ''check_status'' = Some v)"
  by (auto simp: status_of_def split: option.splits)

lemma filter_status_of_present:
  "(\<And>r. r \<in> set rs \<Longrightarrow> r ''check_status'' \<noteq> None) \<Longrightarrow>
     filter (\<lambda>r. status_of r = v) rs = filter (\<lambda>r. r ''check_status'' = Some v) rs"
  by (rule filter_cong) (simp_all add: status_of_present)

lemma filter_results_status_only:
  "S \<noteq> [] \<Longrightarrow>
     filter_results rs (Some S) None = filter (\<lambda>r. r ''check_status'' = Some (PStr S)) rs"
  by (simp add: filter_results_def)

text \<open>
  C8. \<^verbatim>\<open>get_summary_by_status\<close> maps every status value observed in a list of result
  records (records that carry the key \<^verbatim>\<open>check_status\<close>, as every result record does) to
  the number of records with that value, whatever the value is, and maps no other value;
  on the empty list it is the empty mapping. For a non-empty string \<open>S\<close>,
  \<^verbatim>\<open>filter_results(results, status=S)\<close> is the list of the records whose
  \<^verbatim>\<open>check_status\<close> equals \<open>S\<close>, in their order, and its length is the count that the
  summary holds under \<open>S\<close> (no entry under \<open>S\<close> when that count is 0).
\<close>

theorem summary_by_status_and_filter:
  assumes "\<forall>r\<in>set rs. r ''check_status'' \<noteq> None" and "S \<noteq> []"
  shows "get_summary_by_status [] = Map.empty \<and>
         (\<forall>v. get_summary_by_status rs v =
                (let n = length (filter (\<lambda>r. r ''check_status'' = Some v) rs)
                 in if n = 0 then None else Some n)) \<and>
         filter_results rs (Some S) None =
           filter (\<lambda>r. r ''check_status'' = Some (PStr S)) rs \<and>
         length (filter_results rs (Some S) None) =
           (case get_summary_by_status rs (PStr S) of None \<Rightarrow> 0 | Some n \<Rightarrow> n)"
proof -
  have empty: "get_summary_by_status [] = Map.empty"
    by (simp add: get_summary_by_status_def)
  have same: "filter (\<lambda>r. status_of r = v) rs = filter (\<lambda>r. r ''check_status'' = Some v) rs"
    for v
    using assms(1) by (intro filter_status_of_present) blast
  have counts: "get_summary_by_status rs v =
      (let n = length (filter (\<lambda>r. r ''check_status'' = Some v) rs)
       in if n = 0 then None else Some n)" for v
    by (simp add: get_summary_by_status_count same)
  have sel: "filter_results rs (Some S) None =
      filter (\<lambda>r. r ''check_status'' = Some (PStr S)) rs"
    using assms(2) by (rule filter_results_status_only)
  have len: "length (filter_results rs (Some S) None) =
      (case get_summary_by_status rs (PStr S) of None \<Rightarrow> 0 | Some n \<Rightarrow> n)"
    by (simp add: sel counts Let_def)
  from empty counts sel len show ?thesis by blast
qed

theorem summary_by_status_and_filter_witness:
  "get_summary_by_status [door_result ''pass'', door_result ''fail'', door_result ''pass'']
       (PStr ''pass'') = Some 2 \<and>
   get_summary_by_status [door_result ''pass'', door_result ''fail'', door_result ''pass'']
       (PStr ''warning'') = None \<and>
   filter_results [door_result ''pass'', door_result ''fail'', door_result ''pass'']
       (Some ''pass'') None = [door_result ''pass'', door_result ''pass''] \<and>
   length (filter_results [door_result ''pass'', door_result ''fail'', door_result ''pass'']
       (Some ''pass'') None) = 2"
  using summary_by_status_and_filter
    [of "[door_result ''pass'', door_result ''fail'', door_result ''pass'']" "''pass''"]
  by (simp add: door_result_def Let_def)

text \<open>
  C9. \<^verbatim>\<open>filter_results\<close> reads an empty-string criterion as an absent one: with
  \<^verbatim>\<open>status=""\<close> or \<^verbatim>\<open>element_type=""\<close> it returns the input list unchanged, and an
  empty criterion beside another one leaves only the other in force. Whatever the status
  criterion is, the result is the whole list or the records of one non-empty status, so
  the records whose \<^verbatim>\<open>check_status\<close> is the empty string cannot be selected by it.
\<close>

theorem filter_results_empty_criterion:
  "filter_results rs (Some '''') None = rs \<and>
   filter_results rs None (Some '''') = rs \<and>
   filter_results rs (Some '''') (Some '''') = rs \<and>
   filter_results rs (Some '''') et = filter_results rs None et \<and>
   filter_results rs st (Some '''') = filter_results rs st None \<and>
   (filter_results rs st None = rs \<or>
    (\<exists>S. S \<noteq> [] \<and>
         filter_results rs st None = filter (\<lambda>r. r ''check_status'' = Some (PStr S)) rs))"
  by (cases st) (auto simp: filter_results_def split: option.splits)

theorem filter_results_empty_criterion_witness:
  "filter_results [door_result '''', door_result ''pass''] (Some '''') None =
     [door_result '''', door_result ''pass''] \<and>
   filter_results [door_result '''', door_result ''pass''] None (Some '''') =
     [door_result '''', door_result ''pass'']"
  using filter_results_empty_criterion
    [where rs = "[door_result '''', door_result ''pass'']" and et = None and st = None]
  by blast

section \<open>Ordered dicts: assignment keeps positions\<close>

lemma map_of_dict_set: "map_of (dict_set k v d) = (map_of d)(k \<mapsto> v)"
  by (induction d) (auto simp: fun_eq_iff)

lemma keys_dict_set_old: "k \<in> fst ` set d \<Longrightarrow> map fst (dict_set k v d) = map fst d"
proof (induction d)
  case Nil
  then show ?case by simp
next
  case (Cons x d)
  show ?case
  proof (cases "fst x = k")
    case True
    then show ?thesis by (cases x) simp
  next
    case False
    with Cons.prems have "k \<in> fst ` set d" by auto
    with Cons.IH False show ?thesis by (cases x) simp
  qed
qed

lemma keys_dict_set_new: "k \<notin> fst ` set d \<Longrightarrow> map fst (dict_set k v d) = map fst d @ [k]"
  by (induction d) auto

lemma keys_dict_set:
  "map fst (dict_set k v d) = (if k \<in> fst ` set d then map fst d else map fst d @ [k])"
  by (simp add: keys_dict_set_old keys_dict_set_new)

lemma key_set_dict_set: "fst ` set (dict_set k v d) = insert k (fst ` set d)"
proof -
  have "set (map fst (dict_set k v d)) = insert k (set (map fst d))"
    unfolding keys_dict_set by auto
  then show ?thesis by simp
qed

lemma register_Cons: "register ((k, v) # es) d = register es (dict_set k v d)"
  by (simp add: register_def)

lemma register_Nil: "register [] d = d"
  by (simp add: register_def)

lemma register_append: "register (xs @ ys) d = register ys (register xs d)"
  by (simp add: register_def)

lemma dict_of_pairs_register: "dict_of_pairs ps = register ps []"
  by (simp add: dict_of_pairs_def register_def)

lemma map_of_register: "map_of (register es d) = map_of d ++ map_of (rev es)"
proof (induction es arbitrary: d)
  case Nil
  show ?case by (simp add: register_Nil)
next
  case (Cons e es)
  obtain k v where e: "e = (k, v)" by (cases e)
  have "map_of (register (e # es) d) = map_of (dict_set k v d) ++ map_of (rev es)"
    by (simp add: e register_Cons Cons.IH)
  also have "\<dots> = (map_of d)(k \<mapsto> v) ++ map_of (rev es)"
    by (simp only: map_of_dict_set)
  also have "\<dots> = map_of d ++ map_of (rev (e # es))"
    by (auto simp: e fun_eq_iff map_add_def split: option.splits)
  finally show ?case .
qed

lemma map_of_register_fresh:
  "map_of (register es d) = map_of d ++ map_of (register es [])"
  by (simp add: map_of_register [of es d] map_of_register [of es "[]"])

lemma key_set_register: "fst ` set (register es d) = fst ` set d \<union> fst ` set es"
proof (induction es arbitrary: d)
  case Nil
  show ?case by (simp add: register_Nil)
next
  case (Cons e es)
  obtain k v where e: "e = (k, v)" by (cases e)
  show ?case
    by (simp add: e register_Cons Cons.IH key_set_dict_set)
qed

text \<open>Sorted input gives strictly sorted keys.\<close>

lemma register_sorted:
  fixes es :: "('a::linorder \<times> 'b) list"
  assumes "sorted (map fst es)" and "sorted_wrt (<) (map fst d)"
    and "\<forall>a\<in>fst ` set d. \<forall>b\<in>fst ` set es. a \<le> b"
  shows "sorted_wrt (<) (map fst (register es d))"
  using assms
proof (induction es arbitrary: d)
  case Nil
  then show ?case by (simp add: register_Nil)
next
  case (Cons e es)
  obtain k v where e: "e = (k, v)" by (cases e)
  let ?d = "dict_set k v d"
  have keys: "map fst ?d = (if k \<in> fst ` set d then map fst d else map fst d @ [k])"
    by (rule keys_dict_set)
  have le_k: "\<forall>a\<in>fst ` set d. a \<le> k"
    using Cons.prems(3) by (simp add: e)
  have s1: "sorted_wrt (<) (map fst ?d)"
  proof (cases "k \<in> fst ` set d")
    case True
    with keys Cons.prems(2) show ?thesis by simp
  next
    case False
    have "\<forall>a\<in>fst ` set d. a < k"
    proof
      fix a assume a: "a \<in> fst ` set d"
      with le_k have "a \<le> k" by blast
      moreover from a False have "a \<noteq> k" by blast
      ultimately show "a < k" by simp
    qed
    with keys False Cons.prems(2) show ?thesis
      by (simp add: sorted_wrt_append)
  qed
  have s2: "sorted (map fst es)"
    using Cons.prems(1) by simp
  have k_le: "\<forall>b\<in>fst ` set es. k \<le> b"
    using Cons.prems(1) by (auto simp: e)
  have s3: "\<forall>a\<in>fst ` set ?d. \<forall>b\<in>fst ` set es. a \<le> b"
  proof (intro ballI)
    fix a b assume a: "a \<in> fst ` set ?d" and b: "b \<in> fst ` set es"
    from a have "a = k \<or> a \<in> fst ` set d"
      by (simp add: key_set_dict_set)
    then show "a \<le> b"
    proof
      assume "a = k"
      with k_le b show ?thesis by blast
    next
      assume "a \<in> fst ` set d"
      moreover from b have "b \<in> fst ` set (e # es)" by auto
      ultimately show ?thesis using Cons.prems(3) by blast
    qed
  qed
  show ?case
    using Cons.IH [OF s2 s1 s3] by (simp add: e register_Cons)
qed

lemma register_fresh_sorted:
  fixes es :: "('a::linorder \<times> 'b) list"
  shows "sorted (map fst es) \<Longrightarrow> sorted_wrt (<) (map fst (register es []))"
  by (rule register_sorted) simp_all

section \<open>The validation loop and one checker call\<close>

lemma validate_results_fst:
  "fst (validate_results fn n i es acc) = first_invalid i es"
  by (induction fn n i es acc rule: validate_results.induct) (simp_all add: Let_def)

lemma first_invalid_None: "(first_invalid i es = None) = list_all valid_elem es"
  by (induction i es rule: first_invalid.induct) auto

lemma assign_object_Nil: "assign_object oid d [] = []"
  by (simp add: assign_object_def)

lemma assign_object_fresh: "oid \<notin> fst ` set acc \<Longrightarrow> assign_object oid d acc = acc"
  by (induction acc) (auto simp: assign_object_def)

lemma assign_object_ids: "map fst (assign_object oid d acc) = map fst acc"
  by (induction acc) (auto simp: assign_object_def)

lemma assign_object_append:
  "assign_object oid d (xs @ ys) = assign_object oid d xs @ assign_object oid d ys"
  by (simp add: assign_object_def)

lemma assign_object_members:
  "r \<in> snd ` set (assign_object oid d acc) \<Longrightarrow> r = d \<or> r \<in> snd ` set acc"
  by (induction acc) (auto simp: assign_object_def split: if_splits)

text \<open>Each valid element adds one entry, whatever the identities are.\<close>

lemma validate_results_length:
  "length (snd (validate_results fn n i es acc)) =
     length acc + length (snd (validate_results fn n i es []))"
proof (induction es arbitrary: i acc)
  case Nil
  show ?case by simp
next
  case (Cons e es)
  show ?case
  proof (cases e)
    case (Dict oid d)
    show ?thesis
      using Cons.IH [of "Suc i" "assign_object oid (add_metadata fn n d) acc @ [(oid, add_metadata fn n d)]"]
            Cons.IH [of "Suc i" "[(oid, add_metadata fn n d)]"]
      by (simp add: Dict Let_def assign_object_Nil assign_object_ids [THEN arg_cong, of length, simplified])
  next
    case (NotDict t)
    then show ?thesis by simp
  qed
qed

lemma validate_results_ids:
  "\<exists>k. map fst (snd (validate_results fn n i es acc)) = map fst acc @ take k (ids_of es)"
proof (induction es arbitrary: i acc)
  case Nil
  show ?case by simp
next
  case (Cons e es)
  show ?case
  proof (cases e)
    case (Dict oid d)
    show ?thesis
    proof (cases "required_keys \<subseteq> dom d")
      case True
      obtain k where
        "map fst (snd (validate_results fn n (Suc i) es
            (assign_object oid (add_metadata fn n d) acc @ [(oid, add_metadata fn n d)]))) =
         map fst (assign_object oid (add_metadata fn n d) acc @ [(oid, add_metadata fn n d)]) @
         take k (ids_of es)"
        using Cons.IH by blast
      then have "map fst (snd (validate_results fn n i (e # es) acc)) =
                 map fst acc @ take (Suc k) (ids_of (e # es))"
        using True by (simp add: Dict Let_def assign_object_ids)
      then show ?thesis by blast
    next
      case False
      then have "map fst (snd (validate_results fn n i (e # es) acc)) =
                 map fst acc @ take 0 (ids_of (e # es))"
        by (simp add: Dict Let_def)
      then show ?thesis by blast
    qed
  next
    case (NotDict t)
    then have "map fst (snd (validate_results fn n i (e # es) acc)) =
               map fst acc @ take 0 (ids_of (e # es))"
      by simp
    then show ?thesis by blast
  qed
qed

lemma validate_results_id_set:
  "fst ` set (snd (validate_results fn n i es acc)) \<subseteq> fst ` set acc \<union> set (ids_of es)"
proof -
  obtain k where k: "map fst (snd (validate_results fn n i es acc)) = map fst acc @ take k (ids_of es)"
    using validate_results_ids by blast
  have "fst ` set (snd (validate_results fn n i es acc)) =
        set (map fst (snd (validate_results fn n i es acc)))"
    by simp
  also have "\<dots> = set (map fst acc) \<union> set (take k (ids_of es))"
    unfolding k by simp
  also have "\<dots> \<subseteq> fst ` set acc \<union> set (ids_of es)"
    using set_take_subset [of k "ids_of es"] by auto
  finally show ?thesis .
qed

text \<open>
  With identities that are new, the loop only appends: what it adds does not depend on
  the list it adds to.
\<close>

lemma validate_results_acc:
  "distinct (ids_of es) \<Longrightarrow> set (ids_of es) \<inter> fst ` set acc = {} \<Longrightarrow>
     validate_results fn n i es acc =
       (first_invalid i es, acc @ snd (validate_results fn n i es []))"
proof (induction es arbitrary: i acc)
  case Nil
  show ?case by simp
next
  case (Cons e es)
  show ?case
  proof (cases e)
    case (Dict oid d)
    have fresh: "oid \<notin> fst ` set acc" and d: "distinct (ids_of es)" and
         notin: "oid \<notin> set (ids_of es)" and disj: "set (ids_of es) \<inter> fst ` set acc = {}"
      using Cons.prems by (auto simp: Dict)
    have a: "assign_object oid (add_metadata fn n d) acc = acc"
      using fresh by (rule assign_object_fresh)
    have 1: "validate_results fn n (Suc i) es (acc @ [(oid, add_metadata fn n d)]) =
             (first_invalid (Suc i) es,
              (acc @ [(oid, add_metadata fn n d)]) @ snd (validate_results fn n (Suc i) es []))"
      using d notin disj by (intro Cons.IH) auto
    have 2: "validate_results fn n (Suc i) es [(oid, add_metadata fn n d)] =
             (first_invalid (Suc i) es,
              [(oid, add_metadata fn n d)] @ snd (validate_results fn n (Suc i) es []))"
      using d notin by (intro Cons.IH) auto
    show ?thesis
      by (simp add: Dict Let_def a 1 2 assign_object_Nil)
  next
    case (NotDict t)
    then show ?thesis by simp
  qed
qed

lemma validate_results_valid:
  "list_all valid_elem es \<Longrightarrow> distinct (ids_of es) \<Longrightarrow>
     map snd (snd (validate_results fn n i es [])) = map (add_metadata fn n) (dicts_of es)"
proof (induction es arbitrary: i)
  case Nil
  show ?case by simp
next
  case (Cons e es)
  show ?case
  proof (cases e)
    case (Dict oid d)
    have d: "distinct (ids_of es)" and notin: "oid \<notin> set (ids_of es)" and
         v: "list_all valid_elem es" and r: "required_keys \<subseteq> dom d"
      using Cons.prems by (auto simp: Dict)
    have 2: "validate_results fn n (Suc i) es [(oid, add_metadata fn n d)] =
             (first_invalid (Suc i) es,
              [(oid, add_metadata fn n d)] @ snd (validate_results fn n (Suc i) es []))"
      using d notin by (intro validate_results_acc) auto
    show ?thesis
      using Cons.IH [OF v d, of "Suc i"] r
      by (simp add: Dict Let_def 2 assign_object_Nil)
  next
    case (NotDict t)
    with Cons.prems show ?thesis by simp
  qed
qed

lemma validate_results_prefix:
  "distinct (ids_of es) \<Longrightarrow>
     prefix (map snd (snd (validate_results fn n i es []))) (map (add_metadata fn n) (dicts_of es))"
proof (induction es arbitrary: i)
  case Nil
  show ?case by simp
next
  case (Cons e es)
  show ?case
  proof (cases e)
    case (Dict oid d)
    have d: "distinct (ids_of es)" and notin: "oid \<notin> set (ids_of es)"
      using Cons.prems by (auto simp: Dict)
    have 2: "validate_results fn n (Suc i) es [(oid, add_metadata fn n d)] =
             (first_invalid (Suc i) es,
              [(oid, add_metadata fn n d)] @ snd (validate_results fn n (Suc i) es []))"
      using d notin by (intro validate_results_acc) auto
    show ?thesis
      using Cons.IH [OF d, of "Suc i"]
      by (simp add: Dict Let_def 2 assign_object_Nil)
  next
    case (NotDict t)
    then show ?thesis by simp
  qed
qed

text \<open>
  Whatever the identities are, every record of the list is a record that was there, or
  a dict of the returned list that has the nine keys, tagged with this call.
\<close>

lemma validate_results_members:
  "r \<in> snd ` set (snd (validate_results fn n i es acc)) \<Longrightarrow>
     r \<in> snd ` set acc \<or>
     (\<exists>oid d. Dict oid d \<in> set es \<and> required_keys \<subseteq> dom d \<and> r = add_metadata fn n d)"
proof (induction es arbitrary: i acc)
  case Nil
  then show ?case by simp
next
  case (Cons e es)
  show ?case
  proof (cases e)
    case (Dict oid d)
    show ?thesis
    proof (cases "required_keys \<subseteq> dom d")
      case True
      let ?acc = "assign_object oid (add_metadata fn n d) acc @ [(oid, add_metadata fn n d)]"
      have "r \<in> snd ` set (snd (validate_results fn n (Suc i) es ?acc))"
        using Cons.prems True by (simp add: Dict Let_def)
      then have "r \<in> snd ` set ?acc \<or>
                 (\<exists>oid d. Dict oid d \<in> set es \<and> required_keys \<subseteq> dom d \<and> r = add_metadata fn n d)"
        by (rule Cons.IH)
      moreover have "r \<in> snd ` set ?acc \<Longrightarrow> r = add_metadata fn n d \<or> r \<in> snd ` set acc"
        using assign_object_members [of r oid "add_metadata fn n d" acc] by auto
      ultimately show ?thesis
        using True Dict by auto
    next
      case False
      with Cons.prems Dict show ?thesis by (simp add: Let_def)
    qed
  next
    case (NotDict t)
    with Cons.prems show ?thesis by simp
  qed
qed

lemma admitted_prefix:
  "distinct (returned_ids out) \<Longrightarrow>
     prefix (admitted fn n out) (map (add_metadata fn n) (emitted out))"
  by (auto simp: admitted_def admit_def emitted_def returned_ids_def validate_results_prefix
      split: outcome.splits pyobj.splits)

lemma admitted_valid:
  "valid_output out \<Longrightarrow> distinct (returned_ids out) \<Longrightarrow>
     admitted fn n out = map (add_metadata fn n) (emitted out)"
  by (cases out rule: valid_output.cases)
     (simp_all add: admitted_def admit_def emitted_def returned_ids_def validate_results_valid)

lemma admit_fresh:
  "distinct (returned_ids out) \<Longrightarrow> set (returned_ids out) \<inter> fst ` set acc = {} \<Longrightarrow>
     admit fn n out acc = acc @ admit fn n out []"
  by (cases out rule: valid_output.cases)
     (simp_all add: admit_def returned_ids_def validate_results_acc [of _ acc])

lemma admit_id_set:
  "fst ` set (admit fn n out acc) \<subseteq> fst ` set acc \<union> set (returned_ids out)"
  by (cases out rule: valid_output.cases)
     (simp_all add: admit_def returned_ids_def validate_results_id_set)

lemma admit_length:
  "length (admit fn n out acc) = length acc + length (admitted fn n out)"
  by (cases out rule: valid_output.cases)
     (simp_all add: admit_def admitted_def validate_results_length [of fn n 0 _ acc])

lemma dicts_of_members: "Dict oid d \<in> set es \<Longrightarrow> d \<in> set (dicts_of es)"
  by (induction es rule: dicts_of.induct) auto

lemma admit_members:
  "r \<in> snd ` set (admit fn n out acc) \<Longrightarrow>
     r \<in> snd ` set acc \<or>
     (\<exists>d. d \<in> set (emitted out) \<and> required_keys \<subseteq> dom d \<and> r = add_metadata fn n d)"
proof (cases out rule: valid_output.cases)
  case (1 es)
  assume "r \<in> snd ` set (admit fn n out acc)"
  with 1 have "r \<in> snd ` set (snd (validate_results fn n 0 es acc))"
    by (simp add: admit_def)
  then have "r \<in> snd ` set acc \<or>
     (\<exists>oid d. Dict oid d \<in> set es \<and> required_keys \<subseteq> dom d \<and> r = add_metadata fn n d)"
    by (rule validate_results_members)
  then show ?thesis
  proof
    assume "r \<in> snd ` set acc"
    then show ?thesis by simp
  next
    assume "\<exists>oid d. Dict oid d \<in> set es \<and> required_keys \<subseteq> dom d \<and> r = add_metadata fn n d"
    then obtain oid d where d: "Dict oid d \<in> set es" "required_keys \<subseteq> dom d" "r = add_metadata fn n d"
      by blast
    have "d \<in> set (emitted out)"
      using dicts_of_members [OF d(1)] 1 by (simp add: emitted_def)
    with d show ?thesis by blast
  qed
next
  case (2 t)
  assume "r \<in> snd ` set (admit fn n out acc)"
  with 2 show ?thesis by (simp add: admit_def)
next
  case (3 e)
  assume "r \<in> snd ` set (admit fn n out acc)"
  with 3 show ?thesis by (simp add: admit_def)
qed

text \<open>The two ways in which a call that stays inside \<^verbatim>\<open>run\<close> ends.\<close>

lemma caught_or_valid:
  "escape_of out = None \<Longrightarrow> (caught_error out = None) = valid_output out"
  by (cases out rule: caught_error.cases) (simp_all add: first_invalid_None)

lemma valid_not_caught: "valid_output out \<Longrightarrow> caught_error out = None \<and> escape_of out = None"
  by (cases out rule: caught_error.cases) (simp_all add: first_invalid_None)

text \<open>One checker call, field by field.\<close>

lemma run_checker_fst:
  "fst (run_checker model kwargs fn (n, f) st) = escape_of (f model kwargs)"
  by (cases "f model kwargs" rule: caught_error.cases)
     (auto simp: run_checker_def Let_def split: prod.splits option.splits)

lemma run_checker_all_results:
  "all_results (snd (run_checker model kwargs fn (n, f) st)) =
     admit fn n (f model kwargs) (all_results st)"
  by (cases "f model kwargs" rule: caught_error.cases)
     (auto simp: run_checker_def admit_def checker_failed_def checker_succeeded_def Let_def
        split: prod.splits option.splits)

lemma run_checker_total:
  "stats_total (snd (run_checker model kwargs fn (n, f) st)) = stats_total st + 1"
  by (cases "f model kwargs" rule: caught_error.cases)
     (auto simp: run_checker_def checker_failed_def checker_succeeded_def Let_def
        split: prod.splits option.splits)

lemma run_checker_failed:
  "stats_failed (snd (run_checker model kwargs fn (n, f) st)) =
     stats_failed st + (if caught_error (f model kwargs) = None then 0 else 1)"
proof (cases "f model kwargs" rule: caught_error.cases)
  case (4 es)
  obtain acc where v: "validate_results fn n 0 es (all_results st) = (first_invalid 0 es, acc)"
    using validate_results_fst [of fn n 0 es "all_results st"]
    by (cases "validate_results fn n 0 es (all_results st)") simp
  show ?thesis
    using 4
    by (cases "first_invalid 0 es")
       (auto simp: run_checker_def checker_failed_def checker_succeeded_def Let_def v)
qed (simp_all add: run_checker_def checker_failed_def Let_def)

lemma run_checker_successful:
  "stats_successful (snd (run_checker model kwargs fn (n, f) st)) =
     stats_successful st + (if valid_output (f model kwargs) then 1 else 0)"
proof (cases "f model kwargs" rule: caught_error.cases)
  case (4 es)
  obtain acc where v: "validate_results fn n 0 es (all_results st) = (first_invalid 0 es, acc)"
    using validate_results_fst [of fn n 0 es "all_results st"]
    by (cases "validate_results fn n 0 es (all_results st)") simp
  show ?thesis
    using 4 first_invalid_None [of 0 es]
    by (cases "first_invalid 0 es")
       (auto simp: run_checker_def checker_failed_def checker_succeeded_def Let_def v)
qed (simp_all add: run_checker_def checker_failed_def Let_def)

lemma run_checker_details:
  "stats_details (snd (run_checker model kwargs fn (n, f) st)) =
     stats_details st @ detail_of fn n (f model kwargs)"
proof (cases "f model kwargs" rule: caught_error.cases)
  case (4 es)
  obtain acc where v: "validate_results fn n 0 es (all_results st) = (first_invalid 0 es, acc)"
    using validate_results_fst [of fn n 0 es "all_results st"]
    by (cases "validate_results fn n 0 es (all_results st)") simp
  show ?thesis
    using 4
    by (cases "first_invalid 0 es")
       (auto simp: run_checker_def detail_of_def checker_failed_def checker_succeeded_def
          Let_def v)
qed (simp_all add: run_checker_def detail_of_def checker_failed_def Let_def)

lemma run_checker_trace:
  "\<exists>ls. trace (snd (run_checker model kwargs fn (n, f) st)) =
          trace st @ LogRunning (full_name fn n) # ls \<and>
        running_names ls = []"
  by (cases "f model kwargs" rule: caught_error.cases)
     (auto simp: run_checker_def checker_failed_def checker_succeeded_def Let_def
        split: prod.splits option.splits)

text \<open>A call whose exception leaves \<^verbatim>\<open>run\<close> has only counted itself and logged its name.\<close>

lemma run_checker_escape:
  "escape_of (f model kwargs) = Some x \<Longrightarrow>
     run_checker model kwargs fn (n, f) st =
       (Some x, st\<lparr>stats_total := stats_total st + 1,
                   trace := trace st @ [LogRunning (full_name fn n)]\<rparr>)"
  by (cases "f model kwargs" rule: caught_error.cases)
     (simp_all add: run_checker_def Let_def)

lemma running_names_append:
  "running_names (xs @ ys) = running_names xs @ running_names ys"
  by (induction xs rule: running_names.induct) simp_all

section \<open>The loops of \<^verbatim>\<open>run\<close>\<close>

lemma run_selected_Cons:
  "run_selected model kwargs ((fn, n, f) # sel) st =
     (case escape_of (f model kwargs) of
        Some x \<Rightarrow> (Some x, snd (run_checker model kwargs fn (n, f) st))
      | None \<Rightarrow> run_selected model kwargs sel (snd (run_checker model kwargs fn (n, f) st)))"
  using run_checker_fst [of model kwargs fn n f st]
  by (cases "run_checker model kwargs fn (n, f) st") (auto split: option.splits)

lemma run_selected_append:
  "run_selected model kwargs (xs @ ys) st =
     (case run_selected model kwargs xs st of
        (Some x, st') \<Rightarrow> (Some x, st')
      | (None, st') \<Rightarrow> run_selected model kwargs ys st')"
proof (induction xs arbitrary: st)
  case Nil
  show ?case by simp
next
  case (Cons x xs)
  obtain fn n f where x: "x = (fn, n, f)" by (cases x)
  show ?case
    by (simp add: x Cons.IH split: prod.splits option.splits)
qed

lemma run_functions_selected:
  "run_functions lw model flt kwargs fn fs st =
     run_selected model kwargs
       (if skipped lw flt fn then [] else map (\<lambda>(n, f). (fn, n, f)) fs) st"
proof (induction fs arbitrary: st)
  case Nil
  show ?case by simp
next
  case (Cons nf fs)
  obtain n f where nf: "nf = (n, f)" by (cases nf)
  show ?case
    using Cons.IH by (simp add: nf split: prod.splits option.splits)
qed

lemma run_modules_selected:
  "run_modules lw model flt kwargs cs st = run_selected model kwargs (selected lw flt cs) st"
proof (induction cs arbitrary: st)
  case Nil
  show ?case by (simp add: selected_def)
next
  case (Cons c cs)
  obtain fn fs where c: "c = (fn, fs)" by (cases c)
  have sel: "selected lw flt ((fn, fs) # cs) =
      (if skipped lw flt fn then [] else map (\<lambda>(n, f). (fn, n, f)) fs) @ selected lw flt cs"
    by (simp add: selected_def)
  show ?case
    unfolding c sel run_selected_append
    by (simp add: Cons.IH run_functions_selected split: prod.splits option.splits)
qed

lemma run_selected_fst:
  "fst (run_selected model kwargs sel st) = first_escape model kwargs sel"
proof (induction sel arbitrary: st)
  case Nil
  show ?case by simp
next
  case (Cons x sel)
  obtain fn n f where x: "x = (fn, n, f)" by (cases x)
  show ?case
    unfolding x run_selected_Cons
    by (simp add: Cons.IH split: option.splits)
qed

lemma called_all: "first_escape model kwargs sel = None \<Longrightarrow> called model kwargs sel = sel"
proof (induction sel)
  case Nil
  show ?case by simp
next
  case (Cons x sel)
  obtain fn n f where x: "x = (fn, n, f)" by (cases x)
  show ?case
    using Cons by (simp add: x split: option.splits)
qed

lemma called_prefix: "prefix (called model kwargs sel) sel"
proof (induction sel)
  case Nil
  show ?case by simp
next
  case (Cons x sel)
  obtain fn n f where x: "x = (fn, n, f)" by (cases x)
  show ?case
    using Cons by (simp add: x split: option.splits)
qed

lemma admit_all_Cons:
  "admit_all model kwargs ((fn, n, f) # sel) acc =
     admit_all model kwargs sel (admit fn n (f model kwargs) acc)"
  by (simp add: admit_all_def)

lemma admit_escape: "escape_of out = Some x \<Longrightarrow> admit fn n out acc = acc"
  by (cases out rule: caught_error.cases) (simp_all add: admit_def)

lemma detail_of_escape: "escape_of out = Some x \<Longrightarrow> detail_of fn n out = []"
  by (cases out rule: caught_error.cases) (simp_all add: detail_of_def)

lemma escape_not_caught:
  "escape_of out = Some x \<Longrightarrow> caught_error out = None \<and> \<not> valid_output out"
  by (cases out rule: caught_error.cases) simp_all

lemma run_selected_all_results:
  "all_results (snd (run_selected model kwargs sel st)) =
     admit_all model kwargs (called model kwargs sel) (all_results st)"
proof (induction sel arbitrary: st)
  case Nil
  show ?case by (simp add: admit_all_def)
next
  case (Cons x sel)
  obtain fn n f where x: "x = (fn, n, f)" by (cases x)
  show ?case
    unfolding x run_selected_Cons
    by (simp add: Cons.IH run_checker_all_results admit_all_Cons admit_all_def
        split: option.splits)
qed

lemma run_selected_total:
  "stats_total (snd (run_selected model kwargs sel st)) =
     stats_total st + length (called model kwargs sel)"
proof (induction sel arbitrary: st)
  case Nil
  show ?case by simp
next
  case (Cons x sel)
  obtain fn n f where x: "x = (fn, n, f)" by (cases x)
  show ?case
    unfolding x run_selected_Cons
    by (simp add: Cons.IH run_checker_total split: option.splits)
qed

lemma run_selected_failed:
  "stats_failed (snd (run_selected model kwargs sel st)) =
     stats_failed st +
     length (filter (\<lambda>(fn, n, f). caught_error (f model kwargs) \<noteq> None) (called model kwargs sel))"
proof (induction sel arbitrary: st)
  case Nil
  show ?case by simp
next
  case (Cons x sel)
  obtain fn n f where x: "x = (fn, n, f)" by (cases x)
  show ?case
    unfolding x run_selected_Cons
    using escape_not_caught [of "f model kwargs"]
    by (auto simp add: Cons.IH run_checker_failed split: option.splits)
qed

lemma run_selected_successful:
  "stats_successful (snd (run_selected model kwargs sel st)) =
     stats_successful st +
     length (filter (\<lambda>(fn, n, f). valid_output (f model kwargs)) (called model kwargs sel))"
proof (induction sel arbitrary: st)
  case Nil
  show ?case by simp
next
  case (Cons x sel)
  obtain fn n f where x: "x = (fn, n, f)" by (cases x)
  show ?case
    unfolding x run_selected_Cons
    using escape_not_caught [of "f model kwargs"]
    by (auto simp add: Cons.IH run_checker_successful split: option.splits)
qed

lemma run_selected_details:
  "stats_details (snd (run_selected model kwargs sel st)) =
     stats_details st @
     concat (map (\<lambda>(fn, n, f). detail_of fn n (f model kwargs)) (called model kwargs sel))"
proof (induction sel arbitrary: st)
  case Nil
  show ?case by simp
next
  case (Cons x sel)
  obtain fn n f where x: "x = (fn, n, f)" by (cases x)
  show ?case
    unfolding x run_selected_Cons
    by (simp add: Cons.IH run_checker_details split: option.splits)
qed

lemma run_selected_running:
  "running_names (trace (snd (run_selected model kwargs sel st))) =
     running_names (trace st) @ names_of (called model kwargs sel)"
proof (induction sel arbitrary: st)
  case Nil
  show ?case by (simp add: names_of_def)
next
  case (Cons x sel)
  obtain fn n f where x: "x = (fn, n, f)" by (cases x)
  obtain ls where "trace (snd (run_checker model kwargs fn (n, f) st)) =
      trace st @ LogRunning (full_name fn n) # ls" "running_names ls = []"
    using run_checker_trace [of model kwargs fn n f st] by blast
  then show ?case
    unfolding x run_selected_Cons
    by (simp add: Cons.IH running_names_append names_of_def split: option.splits)
qed

lemma run_selected_trace_prefix:
  "prefix (trace st) (trace (snd (run_selected model kwargs sel st)))"
proof (induction sel arbitrary: st)
  case Nil
  show ?case by simp
next
  case (Cons x sel)
  obtain fn n f where x: "x = (fn, n, f)" by (cases x)
  obtain ls where "trace (snd (run_checker model kwargs fn (n, f) st)) =
      trace st @ LogRunning (full_name fn n) # ls"
    using run_checker_trace [of model kwargs fn n f st] by blast
  then have 1: "prefix (trace st) (trace (snd (run_checker model kwargs fn (n, f) st)))"
    by simp
  have 2: "prefix (trace (snd (run_checker model kwargs fn (n, f) st)))
             (trace (snd (run_selected model kwargs sel (snd (run_checker model kwargs fn (n, f) st)))))"
    by (rule Cons.IH)
  show ?case
    unfolding x run_selected_Cons
    using 1 prefix_order.trans [OF 1 2] by (simp split: option.splits)
qed

section \<open>The results of a list of calls\<close>

lemma admit_all_Nil: "admit_all model kwargs [] acc = acc"
  by (simp add: admit_all_def)

lemma admit_all_append:
  "admit_all model kwargs (xs @ ys) acc = admit_all model kwargs ys (admit_all model kwargs xs acc)"
  by (simp add: admit_all_def)

lemma admit_all_length:
  "length (admit_all model kwargs sel acc) =
     length acc + length (concat (map (\<lambda>(fn, n, f). admitted fn n (f model kwargs)) sel))"
proof (induction sel arbitrary: acc)
  case Nil
  show ?case by (simp add: admit_all_Nil)
next
  case (Cons x sel)
  obtain fn n f where x: "x = (fn, n, f)" by (cases x)
  show ?case
    by (simp add: x admit_all_Cons Cons.IH admit_length)
qed

lemma admit_all_members:
  "r \<in> snd ` set (admit_all model kwargs sel acc) \<Longrightarrow>
     r \<in> snd ` set acc \<or>
     (\<exists>fn n f d. (fn, n, f) \<in> set sel \<and> d \<in> set (emitted (f model kwargs)) \<and>
        required_keys \<subseteq> dom d \<and> r = add_metadata fn n d)"
proof (induction sel arbitrary: acc)
  case Nil
  then show ?case by (simp add: admit_all_Nil)
next
  case (Cons x sel)
  obtain fn n f where x: "x = (fn, n, f)" by (cases x)
  have "r \<in> snd ` set (admit_all model kwargs sel (admit fn n (f model kwargs) acc))"
    using Cons.prems by (simp add: x admit_all_Cons)
  then have "r \<in> snd ` set (admit fn n (f model kwargs) acc) \<or>
     (\<exists>fn n f d. (fn, n, f) \<in> set sel \<and> d \<in> set (emitted (f model kwargs)) \<and>
        required_keys \<subseteq> dom d \<and> r = add_metadata fn n d)"
    by (rule Cons.IH)
  then show ?case
  proof
    assume "r \<in> snd ` set (admit fn n (f model kwargs) acc)"
    then have "r \<in> snd ` set acc \<or>
       (\<exists>d. d \<in> set (emitted (f model kwargs)) \<and> required_keys \<subseteq> dom d \<and>
          r = add_metadata fn n d)"
      by (rule admit_members)
    then show ?thesis
    proof
      assume "r \<in> snd ` set acc"
      then show ?thesis by simp
    next
      assume "\<exists>d. d \<in> set (emitted (f model kwargs)) \<and> required_keys \<subseteq> dom d \<and>
          r = add_metadata fn n d"
      then obtain d where "d \<in> set (emitted (f model kwargs))" "required_keys \<subseteq> dom d"
          "r = add_metadata fn n d"
        by blast
      moreover have "(fn, n, f) \<in> set (x # sel)" by (simp add: x)
      ultimately show ?thesis by blast
    qed
  next
    assume "\<exists>fn n f d. (fn, n, f) \<in> set sel \<and> d \<in> set (emitted (f model kwargs)) \<and>
        required_keys \<subseteq> dom d \<and> r = add_metadata fn n d"
    then obtain fn' n' f' d where "(fn', n', f') \<in> set sel" "d \<in> set (emitted (f' model kwargs))"
        "required_keys \<subseteq> dom d" "r = add_metadata fn' n' d"
      by blast
    moreover have "(fn', n', f') \<in> set sel \<Longrightarrow> (fn', n', f') \<in> set (x # sel)" by simp
    ultimately show ?thesis by blast
  qed
qed

text \<open>With fresh dicts each call only appends, and every object is appended once.\<close>

lemma admit_all_fresh:
  "distinct (concat (map (\<lambda>(fn, n, f). returned_ids (f model kwargs)) sel)) \<Longrightarrow>
   set (concat (map (\<lambda>(fn, n, f). returned_ids (f model kwargs)) sel)) \<inter> fst ` set acc = {} \<Longrightarrow>
     admit_all model kwargs sel acc =
       acc @ concat (map (\<lambda>(fn, n, f). admit fn n (f model kwargs) []) sel)"
proof (induction sel arbitrary: acc)
  case Nil
  show ?case by (simp add: admit_all_Nil)
next
  case (Cons x sel)
  obtain fn n f where x: "x = (fn, n, f)" by (cases x)
  let ?ids = "concat (map (\<lambda>(fn, n, f). returned_ids (f model kwargs)) sel)"
  have p1: "distinct (returned_ids (f model kwargs) @ ?ids)" and
       p2: "set (returned_ids (f model kwargs) @ ?ids) \<inter> fst ` set acc = {}"
    using Cons.prems by (simp_all add: x)
  have d1: "distinct (returned_ids (f model kwargs))" and d2: "distinct ?ids" and
       d3: "set (returned_ids (f model kwargs)) \<inter> set ?ids = {}"
    using p1 unfolding distinct_append by blast+
  have a1: "set (returned_ids (f model kwargs)) \<inter> fst ` set acc = {}" and
       a2: "set ?ids \<inter> fst ` set acc = {}"
    using p2 unfolding set_append by blast+
  have 1: "admit fn n (f model kwargs) acc = acc @ admit fn n (f model kwargs) []"
    using d1 a1 by (rule admit_fresh)
  have "fst ` set (admit fn n (f model kwargs) []) \<subseteq> set (returned_ids (f model kwargs))"
    using admit_id_set [of fn n "f model kwargs" "[]"] by simp
  then have "set ?ids \<inter> fst ` set (acc @ admit fn n (f model kwargs) []) = {}"
    using a2 d3 unfolding set_append image_Un by blast
  then have 2: "admit_all model kwargs sel (acc @ admit fn n (f model kwargs) []) =
      (acc @ admit fn n (f model kwargs) []) @
      concat (map (\<lambda>(fn, n, f). admit fn n (f model kwargs) []) sel)"
    using d2 by (intro Cons.IH)
  show ?case
    by (simp add: x admit_all_Cons 1 2)
qed

lemma admit_all_fresh_results:
  "fresh_dicts model kwargs sel \<Longrightarrow>
     map snd (admit_all model kwargs sel []) =
       concat (map (\<lambda>(fn, n, f). admitted fn n (f model kwargs)) sel)"
proof -
  assume "fresh_dicts model kwargs sel"
  then have "admit_all model kwargs sel [] =
      [] @ concat (map (\<lambda>(fn, n, f). admit fn n (f model kwargs) []) sel)"
    unfolding fresh_dicts_def by (intro admit_all_fresh) simp_all
  then show ?thesis
    by (simp add: map_concat comp_def case_prod_unfold admitted_def)
qed

lemma admit_ids_prefix: "prefix (map fst (admit fn n out [])) (returned_ids out)"
proof (cases out rule: valid_output.cases)
  case (1 es)
  obtain k where "map fst (snd (validate_results fn n 0 es [])) = take k (ids_of es)"
    using validate_results_ids [of fn n 0 es "[]"] by auto
  then show ?thesis
    using 1 by (simp add: admit_def returned_ids_def take_is_prefix)
next
  case (2 t)
  then show ?thesis by (simp add: admit_def)
next
  case (3 e)
  then show ?thesis by (simp add: admit_def)
qed

lemma distinct_concat_prefixes:
  "distinct (concat (map g xs)) \<Longrightarrow> \<forall>x \<in> set xs. prefix (h x) (g x) \<Longrightarrow>
     distinct (concat (map h xs))"
proof (induction xs)
  case Nil
  show ?case by simp
next
  case (Cons x xs)
  have 1: "distinct (h x)"
    using Cons.prems by (auto simp: prefix_def)
  have 2: "distinct (concat (map h xs))"
    using Cons by simp
  have sub: "set (h y) \<subseteq> set (g y)" if "y \<in> set (x # xs)" for y
    using Cons.prems(2) that set_mono_prefix by blast
  have "set (h x) \<subseteq> set (g x)"
    by (rule sub) simp
  moreover have "set (concat (map h xs)) \<subseteq> set (concat (map g xs))"
    using sub by fastforce
  moreover have "set (g x) \<inter> set (concat (map g xs)) = {}"
    using Cons.prems(1) by simp
  ultimately have 3: "set (h x) \<inter> set (concat (map h xs)) = {}"
    by blast
  show ?case
    using 1 2 3 by simp
qed

lemma admit_all_fresh_distinct:
  "fresh_dicts model kwargs sel \<Longrightarrow> distinct (map fst (admit_all model kwargs sel []))"
proof -
  assume f: "fresh_dicts model kwargs sel"
  then have "admit_all model kwargs sel [] =
      [] @ concat (map (\<lambda>(fn, n, f). admit fn n (f model kwargs) []) sel)"
    unfolding fresh_dicts_def by (intro admit_all_fresh) simp_all
  then have "map fst (admit_all model kwargs sel []) =
      concat (map (\<lambda>x. map fst (admit (fst x) (fst (snd x)) (snd (snd x) model kwargs) [])) sel)"
    by (simp add: map_concat comp_def case_prod_unfold)
  moreover have "distinct (concat (map (\<lambda>x. map fst (admit (fst x) (fst (snd x)) (snd (snd x) model kwargs) [])) sel))"
  proof (rule distinct_concat_prefixes)
    show "distinct (concat (map (\<lambda>x. returned_ids (snd (snd x) model kwargs)) sel))"
      using f by (simp add: fresh_dicts_def case_prod_unfold)
    show "\<forall>x \<in> set sel. prefix (map fst (admit (fst x) (fst (snd x)) (snd (snd x) model kwargs) []))
        (returned_ids (snd (snd x) model kwargs))"
      by (simp add: admit_ids_prefix)
  qed
  ultimately show ?thesis by simp
qed

text \<open>The results depend on the checkers only through what their calls return.\<close>

lemma admit_all_cong:
  "map (\<lambda>(fn, n, f). (fn, n, f model kwargs)) sel =
   map (\<lambda>(fn, n, f). (fn, n, f model' kwargs')) sel' \<Longrightarrow>
     admit_all model kwargs sel acc = admit_all model' kwargs' sel' acc"
proof (induction sel arbitrary: sel' acc)
  case Nil
  then show ?case by (simp add: admit_all_Nil)
next
  case (Cons x sel)
  obtain fn n f where x: "x = (fn, n, f)" by (cases x)
  obtain y rest where s: "sel' = y # rest"
    using Cons.prems by (cases sel') auto
  obtain fn' n' f' where y: "y = (fn', n', f')" by (cases y)
  have eq: "fn' = fn" "n' = n" "f' model' kwargs' = f model kwargs" and
       rest: "map (\<lambda>(fn, n, f). (fn, n, f model kwargs)) sel =
              map (\<lambda>(fn, n, f). (fn, n, f model' kwargs')) rest"
    using Cons.prems by (auto simp: x s y)
  show ?case
    by (simp add: x s y admit_all_Cons eq Cons.IH [OF rest])
qed

lemma details_cong:
  "map (\<lambda>(fn, n, f). (fn, n, f model kwargs)) sel =
   map (\<lambda>(fn, n, f). (fn, n, f model' kwargs')) sel' \<Longrightarrow>
     concat (map (\<lambda>(fn, n, f). detail_of fn n (f model kwargs)) sel) =
     concat (map (\<lambda>(fn, n, f). detail_of fn n (f model' kwargs')) sel')"
proof -
  assume a: "map (\<lambda>(fn, n, f). (fn, n, f model kwargs)) sel =
             map (\<lambda>(fn, n, f). (fn, n, f model' kwargs')) sel'"
  have "map (\<lambda>(fn, n, f). detail_of fn n (f model kwargs)) sel =
        map (\<lambda>(fn, n, out). detail_of fn n out) (map (\<lambda>(fn, n, f). (fn, n, f model kwargs)) sel)"
    by (simp add: comp_def case_prod_unfold)
  also have "\<dots> = map (\<lambda>(fn, n, out). detail_of fn n out)
                     (map (\<lambda>(fn, n, f). (fn, n, f model' kwargs')) sel')"
    by (simp only: a)
  also have "\<dots> = map (\<lambda>(fn, n, f). detail_of fn n (f model' kwargs')) sel'"
    by (simp add: comp_def case_prod_unfold)
  finally show ?thesis by simp
qed

section \<open>The loop of \<^verbatim>\<open>discover\<close>\<close>

lemma append_log_fields [simp]:
  "tools_dir (append_log l s) = tools_dir s"
  "checkers (append_log l s) = checkers s"
  "loaded_modules (append_log l s) = loaded_modules s"
  "execution_log (append_log l s) = execution_log s @ [l]"
  by (simp_all add: append_log_def)

lemma load_failure_fields:
  "fst (load_failure name e s) = Some (exit_of name e)"
  "tools_dir (snd (load_failure name e s)) = tools_dir s"
  "checkers (snd (load_failure name e s)) = checkers s"
  "loaded_modules (snd (load_failure name e s)) = loaded_modules s"
  "execution_log (snd (load_failure name e s)) = execution_log s @ failure_lines name e"
  by (cases e; simp)+

lemma load_files_log_prefix:
  "prefix (execution_log s) (execution_log (snd (load_files fs s)))"
proof (induction fs s rule: load_files.induct)
  case (1 s)
  show ?case by simp
next
  case (2 name e fs s)
  show ?case by (simp add: load_failure_fields)
next
  case (3 name module e fs s)
  show ?case by (simp add: load_failure_fields)
next
  case (4 name module fs s)
  let ?s1 = "s\<lparr>loaded_modules := dict_set name module (loaded_modules s)\<rparr>"
  let ?cfs = "check_functions (getmembers module)"
  show ?case
  proof (cases "?cfs = []")
    case True
    have "prefix (execution_log s) (execution_log (append_log (LogNoFunctions name) ?s1))"
      by simp
    also have "prefix \<dots> (execution_log (snd (load_files fs (append_log (LogNoFunctions name) ?s1))))"
      using "4.IH"(1) [OF refl refl True] .
    finally show ?thesis using True by (simp add: Let_def)
  next
    case False
    let ?s2 = "append_log (LogFoundFunctions name (map fst ?cfs))
                 (?s1\<lparr>checkers := dict_set name (dict_of_pairs ?cfs) (checkers ?s1)\<rparr>)"
    have "prefix (execution_log s) (execution_log ?s2)"
      by simp
    also have "prefix \<dots> (execution_log (snd (load_files fs ?s2)))"
      using "4.IH"(2) [OF refl refl False] .
    finally show ?thesis using False by (simp add: Let_def)
  qed
qed

lemma load_files_tools_dir: "tools_dir (snd (load_files fs s)) = tools_dir s"
  by (induction fs s rule: load_files.induct) (simp_all add: Let_def load_failure_fields)

lemma rule_modules_Nil: "rule_modules [] = []"
  by (simp add: rule_modules_def)

lemma rule_modules_Cons_Loads:
  "rule_modules ((name, Loads module) # fs) =
     (if check_functions (getmembers module) = [] then []
      else [(name, dict_of_pairs (check_functions (getmembers module)))]) @ rule_modules fs"
  by (simp add: rule_modules_def)

lemma rule_modules_append: "rule_modules (xs @ ys) = rule_modules xs @ rule_modules ys"
  by (simp add: rule_modules_def)

lemma rule_modules_failure: "failure_of r = Some e \<Longrightarrow> rule_modules [(name, r)] = []"
  by (cases r) (simp_all add: rule_modules_def)

lemma loaded_of_Nil: "loaded_of [] = []"
  by (simp add: loaded_of_def)

lemma loaded_of_Cons_Loads:
  "loaded_of ((name, Loads module) # fs) = (name, module) # loaded_of fs"
  by (simp add: loaded_of_def)

lemma loaded_of_append: "loaded_of (xs @ ys) = loaded_of xs @ loaded_of ys"
  by (simp add: loaded_of_def)

lemma found_lines_Nil: "found_lines [] = []"
  by (simp add: found_lines_def)

lemma found_lines_Cons_Loads:
  "found_lines ((name, Loads module) # fs) =
     (if check_functions (getmembers module) = [] then [LogNoFunctions name]
      else [LogFoundFunctions name (map fst (check_functions (getmembers module)))]) @
     found_lines fs"
  by (simp add: found_lines_def)

text \<open>When every file loads, the loop ends normally and has registered each module.\<close>

lemma load_files_all_load:
  "\<forall>f\<in>set fs. loads f \<Longrightarrow>
     fst (load_files fs s) = None \<and>
     checkers (snd (load_files fs s)) = register (rule_modules fs) (checkers s) \<and>
     loaded_modules (snd (load_files fs s)) = register (loaded_of fs) (loaded_modules s) \<and>
     execution_log (snd (load_files fs s)) = execution_log s @ found_lines fs"
proof (induction fs s rule: load_files.induct)
  case (1 s)
  show ?case by (simp add: rule_modules_Nil loaded_of_Nil register_Nil found_lines_Nil)
next
  case (2 name e fs s)
  then show ?case by simp
next
  case (3 name module e fs s)
  then show ?case by simp
next
  case (4 name module fs s)
  from "4.prems" have rest: "\<forall>f\<in>set fs. loads f" by simp
  show ?case
  proof (cases "check_functions (getmembers module) = []")
    case True
    show ?thesis
      using "4.IH"(1) [OF refl refl True rest] True
      by (simp add: Let_def rule_modules_Cons_Loads loaded_of_Cons_Loads register_Cons
          found_lines_Cons_Loads)
  next
    case False
    show ?thesis
      using "4.IH"(2) [OF refl refl False rest] False
      by (simp add: Let_def rule_modules_Cons_Loads loaded_of_Cons_Loads register_Cons
          found_lines_Cons_Loads)
  qed
qed

text \<open>
  The first file on which the \<^verbatim>\<open>try\<close> block raises ends the loop, after the files
  before it were handled.
\<close>

lemma load_files_failure_head:
  "failure_of r = Some e \<Longrightarrow>
     fst (load_files ((name, r) # post) s) = Some (exit_of name e) \<and>
     checkers (snd (load_files ((name, r) # post) s)) = checkers s \<and>
     loaded_modules (snd (load_files ((name, r) # post) s)) =
       register (loaded_of [(name, r)]) (loaded_modules s) \<and>
     execution_log (snd (load_files ((name, r) # post) s)) =
       execution_log s @ failure_lines name e"
  by (cases r)
     (simp_all add: load_failure_fields loaded_of_def register_def)

lemma load_files_append:
  "\<forall>f\<in>set pre. loads f \<Longrightarrow>
     load_files (pre @ post) s = load_files post (snd (load_files pre s))"
proof (induction pre s rule: load_files.induct)
  case (1 s)
  show ?case by simp
next
  case (2 name e fs s)
  then show ?case by simp
next
  case (3 name module e fs s)
  then show ?case by simp
next
  case (4 name module fs s)
  from "4.prems" have rest: "\<forall>f\<in>set fs. loads f" by simp
  show ?case
  proof (cases "check_functions (getmembers module) = []")
    case True
    show ?thesis
      using "4.IH"(1) [OF refl refl True rest] True
      by (simp add: Let_def)
  next
    case False
    show ?thesis
      using "4.IH"(2) [OF refl refl False rest] False
      by (simp add: Let_def)
  qed
qed

lemma load_files_first_failure:
  assumes "\<forall>f\<in>set pre. loads f" and "failure_of r = Some e"
  shows "fst (load_files (pre @ (name, r) # post) s) = Some (exit_of name e)"
    and "checkers (snd (load_files (pre @ (name, r) # post) s)) =
           register (rule_modules pre) (checkers s)"
    and "loaded_modules (snd (load_files (pre @ (name, r) # post) s)) =
           register (loaded_of (pre @ [(name, r)])) (loaded_modules s)"
    and "execution_log (snd (load_files (pre @ (name, r) # post) s)) =
           execution_log s @ found_lines pre @ failure_lines name e"
proof -
  let ?s1 = "snd (load_files pre s)"
  have split: "load_files (pre @ (name, r) # post) s = load_files ((name, r) # post) ?s1"
    using assms(1) by (rule load_files_append)
  note pre = load_files_all_load [OF assms(1), of s]
  note head = load_files_failure_head [OF assms(2), of name post ?s1]
  show "fst (load_files (pre @ (name, r) # post) s) = Some (exit_of name e)"
    unfolding split using head by simp
  show "checkers (snd (load_files (pre @ (name, r) # post) s)) =
          register (rule_modules pre) (checkers s)"
    unfolding split using head pre by simp
  show "loaded_modules (snd (load_files (pre @ (name, r) # post) s)) =
          register (loaded_of (pre @ [(name, r)])) (loaded_modules s)"
    unfolding split using head pre by (simp add: loaded_of_append register_append)
  show "execution_log (snd (load_files (pre @ (name, r) # post) s)) =
          execution_log s @ found_lines pre @ failure_lines name e"
    unfolding split using head pre by simp
qed

lemma not_loads_failure: "\<not> loads (name, r) \<Longrightarrow> \<exists>e. failure_of r = Some e"
  by (cases r) simp_all

lemma first_failure_split:
  assumes "\<exists>f\<in>set fs. \<not> loads f"
  shows "\<exists>pre name r e post. fs = pre @ (name, r) # post \<and> failure_of r = Some e \<and>
           (\<forall>f\<in>set pre. loads f)"
proof -
  from assms obtain pre x post where fs: "fs = pre @ x # post" and x: "\<not> loads x"
      and pre: "\<forall>f\<in>set pre. \<not> \<not> loads f"
    using split_list_first_prop [of fs "\<lambda>f. \<not> loads f"] by blast
  obtain name r where xe: "x = (name, r)" by (cases x)
  obtain e where "failure_of r = Some e"
    using x not_loads_failure unfolding xe by blast
  with fs pre xe show ?thesis by auto
qed

lemma load_files_result:
  "(fst (load_files fs s) = None) = (\<forall>f\<in>set fs. loads f)"
proof (cases "\<forall>f\<in>set fs. loads f")
  case True
  then show ?thesis by (simp add: load_files_all_load)
next
  case False
  then obtain pre name r e post where "fs = pre @ (name, r) # post" "failure_of r = Some e"
      "\<forall>f\<in>set pre. loads f"
    using first_failure_split [of fs] by blast
  with False show ?thesis by (simp add: load_files_first_failure(1))
qed

section \<open>\<^verbatim>\<open>discover\<close> as a whole\<close>

lemma scan_start_fields [simp]:
  "tools_dir (scan_start entries s) = tools_dir s"
  "checkers (scan_start entries s) = checkers s"
  "loaded_modules (scan_start entries s) = loaded_modules s"
  "execution_log (scan_start entries s) =
     execution_log s @ [LogScanning (tools_dir s), LogFoundFiles (length (checker_files entries))]"
  by (simp_all add: scan_start_def)

lemma discover_None:
  "discover None s = (Inl (OrchestratorError (ToolsDirNotFound (tools_dir s))), s)"
  by (simp add: discover_def)

lemma discover_Some:
  "discover (Some entries) s =
     (case load_files (checker_files entries) (scan_start entries s) of
        (Some e, s3) \<Rightarrow> (Inl e, s3)
      | (None, s3) \<Rightarrow> (Inr (map (\<lambda>(name, funcs). (name, map fst funcs)) (checkers s3)), s3))"
  by (simp add: discover_def scan_start_def Let_def)

lemma discover_all_load:
  assumes "\<forall>f\<in>set (checker_files entries). loads f"
  shows "\<exists>s'. discover (Some entries) s =
            (Inr (map (\<lambda>(name, funcs). (name, map fst funcs)) (checkers s')), s') \<and>
          checkers s' = register (rule_modules (checker_files entries)) (checkers s) \<and>
          loaded_modules s' = register (loaded_of (checker_files entries)) (loaded_modules s)"
proof -
  let ?r = "load_files (checker_files entries) (scan_start entries s)"
  from load_files_all_load [OF assms, of "scan_start entries s"]
  have "fst ?r = None"
    and "checkers (snd ?r) = register (rule_modules (checker_files entries)) (checkers s)"
    and "loaded_modules (snd ?r) = register (loaded_of (checker_files entries)) (loaded_modules s)"
    by simp_all
  then show ?thesis
    by (cases ?r) (simp add: discover_Some)
qed

lemma discover_Inr_all_load:
  assumes "discover (Some entries) s = (Inr r, s')"
  shows "\<forall>f\<in>set (checker_files entries). loads f"
proof -
  have "fst (load_files (checker_files entries) (scan_start entries s)) = None"
    using assms by (auto simp: discover_Some split: prod.splits option.splits)
  then show ?thesis by (simp add: load_files_result)
qed

lemma discover_log_prefix:
  "prefix (execution_log s) (execution_log (snd (discover dir s)))"
proof (cases dir)
  case None
  then show ?thesis by (simp add: discover_None)
next
  case (Some entries)
  have "prefix (execution_log s) (execution_log (scan_start entries s))"
    by simp
  also have "prefix \<dots>
      (execution_log (snd (load_files (checker_files entries) (scan_start entries s))))"
    by (rule load_files_log_prefix)
  finally show ?thesis
    using Some by (auto simp: discover_Some split: prod.splits option.splits)
qed

lemma discover_failure:
  assumes "checker_files entries = pre @ (name, r) # post"
    and "\<forall>f\<in>set pre. loads f" and "failure_of r = Some e"
  shows "fst (discover (Some entries) s) = Inl (exit_of name e)"
    and "checkers (snd (discover (Some entries) s)) = register (rule_modules pre) (checkers s)"
    and "loaded_modules (snd (discover (Some entries) s)) =
           register (loaded_of (pre @ [(name, r)])) (loaded_modules s)"
    and "execution_log (snd (discover (Some entries) s)) =
           execution_log s @
           [LogScanning (tools_dir s), LogFoundFiles (length (checker_files entries))] @
           found_lines pre @ failure_lines name e"
proof -
  let ?s2 = "scan_start entries s"
  let ?r = "load_files (checker_files entries) ?s2"
  note ff = load_files_first_failure [OF assms(2) assms(3), of name post ?s2, folded assms(1)]
  obtain s3 where r: "?r = (Some (exit_of name e), s3)"
    using ff(1) by (cases ?r) simp
  have d: "discover (Some entries) s = (Inl (exit_of name e), s3)"
    by (simp add: discover_Some r)
  show "fst (discover (Some entries) s) = Inl (exit_of name e)"
    by (simp add: d)
  show "checkers (snd (discover (Some entries) s)) = register (rule_modules pre) (checkers s)"
    using ff(2) by (simp add: d r)
  show "loaded_modules (snd (discover (Some entries) s)) =
          register (loaded_of (pre @ [(name, r)])) (loaded_modules s)"
    using ff(3) by (simp add: d r)
  show "execution_log (snd (discover (Some entries) s)) =
          execution_log s @
          [LogScanning (tools_dir s), LogFoundFiles (length (checker_files entries))] @
          found_lines pre @ failure_lines name e"
    using ff(4) by (simp add: d r)
qed

text \<open>
  C2 (amended). When the \<^verbatim>\<open>try\<close> block of the loop of \<^verbatim>\<open>discover()\<close> raises on a
  rule-bearing file (a \<^verbatim>\<open>checker_*.py\<close> file other than the template): the module fails
  to load, or \<^verbatim>\<open>inspect.getmembers\<close> raises on the loaded module, then \<^verbatim>\<open>discover()\<close>
  ends at the first such file in sorted order. It raises an \<^verbatim>\<open>OrchestratorError\<close> (the
  code has no separate discovery error class) and logs a failure line when the
  exception is an \<^verbatim>\<open>Exception\<close> whose \<^verbatim>\<open>str()\<close> succeeds; otherwise the exception itself
  leaves \<^verbatim>\<open>discover()\<close> (a \<^verbatim>\<open>SystemExit\<close> or \<^verbatim>\<open>KeyboardInterrupt\<close>, or what \<^verbatim>\<open>str()\<close>
  raised) and no failure line is logged. In both cases nothing is rolled back: the files
  that sort before the failing one have been loaded and registered, so the registry is
  the one from before the call with their entries assigned into it, and
  \<^verbatim>\<open>loaded_modules\<close> likewise, with the failing file's module too when it is
  \<^verbatim>\<open>inspect.getmembers\<close> that raised.
\<close>

theorem discover_load_failure:
  assumes "\<exists>f\<in>set (checker_files entries). \<not> loads f"
  shows "\<exists>pre name r e post.
           checker_files entries = pre @ (name, r) # post \<and>
           list_all loads pre \<and> failure_of r = Some e \<and>
           fst (discover (Some entries) s) = Inl (exit_of name e) \<and>
           checkers (snd (discover (Some entries) s)) =
             register (rule_modules pre) (checkers s) \<and>
           loaded_modules (snd (discover (Some entries) s)) =
             register (loaded_of (pre @ [(name, r)])) (loaded_modules s) \<and>
           execution_log (snd (discover (Some entries) s)) =
             execution_log s @
             [LogScanning (tools_dir s), LogFoundFiles (length (checker_files entries))] @
             found_lines pre @ failure_lines name e"
proof -
  from first_failure_split [OF assms]
  obtain pre name r e post where split: "checker_files entries = pre @ (name, r) # post"
      and e: "failure_of r = Some e" and pre: "\<forall>f\<in>set pre. loads f"
    by blast
  note f = discover_failure [OF split pre e, of s]
  have l: "list_all loads pre"
    using pre by (simp add: list_all_iff)
  show ?thesis
  proof (intro exI conjI)
    show "checker_files entries = pre @ (name, r) # post" by (rule split)
    show "list_all loads pre" by (rule l)
    show "failure_of r = Some e" by (rule e)
    show "fst (discover (Some entries) s) = Inl (exit_of name e)" by (rule f(1))
    show "checkers (snd (discover (Some entries) s)) = register (rule_modules pre) (checkers s)"
      by (rule f(2))
    show "loaded_modules (snd (discover (Some entries) s)) =
            register (loaded_of (pre @ [(name, r)])) (loaded_modules s)"
      by (rule f(3))
    show "execution_log (snd (discover (Some entries) s)) =
            execution_log s @
            [LogScanning (tools_dir s), LogFoundFiles (length (checker_files entries))] @
            found_lines pre @ failure_lines name e"
      by (rule f(4))
  qed
qed

lemmas eval_discover =
  discover_def init_orchestrator_def fresh_def append_log_def checker_files_def glob_match_def
  suffix_to_prefix getmembers_def dict_of_pairs_def Let_def

lemma discover_files_broken:
  "discover (Some files_broken) fresh =
     (Inl (OrchestratorError (FailedToLoad ''checker_walls.py'' ''invalid syntax'')),
      \<lparr>tools_dir = ''tools'',
       checkers = [(''checker_doors.py'', [(''check_door_accessibility'', check_ok 11)])],
       loaded_modules = [(''checker_doors.py'', doors_module)],
       execution_log = [LogScanning ''tools'', LogFoundFiles 2,
         LogFoundFunctions ''checker_doors.py'' [''check_door_accessibility''],
         LogLoadFailed ''checker_walls.py'' ''invalid syntax'']\<rparr>)"
  by (simp add: eval_discover files_broken_def doors_module_def)

text \<open>
  A file that calls \<^verbatim>\<open>sys.exit()\<close> when it is imported: the \<^verbatim>\<open>SystemExit\<close> leaves
  \<^verbatim>\<open>discover()\<close>, which logs no failure line.
\<close>

lemma discover_files_aborting:
  "discover (Some files_aborting) fresh =
     (Inl (Propagated ''SystemExit''),
      \<lparr>tools_dir = ''tools'',
       checkers = [(''checker_doors.py'', [(''check_door_accessibility'', check_ok 11)])],
       loaded_modules = [(''checker_doors.py'', doors_module)],
       execution_log = [LogScanning ''tools'', LogFoundFiles 2,
         LogFoundFunctions ''checker_doors.py'' [''check_door_accessibility'']]\<rparr>)"
  by (simp add: eval_discover files_aborting_def doors_module_def)

text \<open>
  A file that loads and on whose module \<^verbatim>\<open>inspect.getmembers\<close> raises: the module is in
  \<^verbatim>\<open>loaded_modules\<close> when \<^verbatim>\<open>discover()\<close> raises.
\<close>

lemma discover_files_unreadable:
  "discover (Some files_unreadable) fresh =
     (Inl (OrchestratorError (FailedToLoad ''checker_walls.py'' ''no members'')),
      \<lparr>tools_dir = ''tools'',
       checkers = [(''checker_doors.py'', [(''check_door_accessibility'', check_ok 11)])],
       loaded_modules = [(''checker_doors.py'', doors_module), (''checker_walls.py'', walls_module)],
       execution_log = [LogScanning ''tools'', LogFoundFiles 2,
         LogFoundFunctions ''checker_doors.py'' [''check_door_accessibility''],
         LogLoadFailed ''checker_walls.py'' ''no members'']\<rparr>)"
  by (simp add: eval_discover files_unreadable_def doors_module_def)

lemma checker_files_unreadable:
  "checker_files files_unreadable =
     [(''checker_doors.py'', Loads doors_module),
      (''checker_walls.py'', LoadsUnreadable walls_module (Caught ''no members''))]"
  by (simp add: checker_files_def glob_match_def suffix_to_prefix files_unreadable_def)

theorem discover_load_failure_witness:
  "(\<exists>f\<in>set (checker_files files_unreadable). \<not> loads f) \<and>
   (\<exists>pre name r e post.
      checker_files files_unreadable = pre @ (name, r) # post \<and>
      list_all loads pre \<and> failure_of r = Some e \<and>
      fst (discover (Some files_unreadable) fresh) = Inl (exit_of name e) \<and>
      checkers (snd (discover (Some files_unreadable) fresh)) =
        register (rule_modules pre) (checkers fresh) \<and>
      loaded_modules (snd (discover (Some files_unreadable) fresh)) =
        register (loaded_of (pre @ [(name, r)])) (loaded_modules fresh) \<and>
      execution_log (snd (discover (Some files_unreadable) fresh)) =
        execution_log fresh @
        [LogScanning (tools_dir fresh), LogFoundFiles (length (checker_files files_unreadable))] @
        found_lines pre @ failure_lines name e)"
proof -
  have h: "\<exists>f\<in>set (checker_files files_unreadable). \<not> loads f"
    by (simp add: checker_files_unreadable)
  from h discover_load_failure [OF h, of fresh] show ?thesis by (rule conjI)
qed

text \<open>
  On a new orchestrator, with \<^verbatim>\<open>checker_doors.py\<close> loading and \<^verbatim>\<open>checker_walls.py\<close>
  failing, \<^verbatim>\<open>discover()\<close> raises and leaves \<^verbatim>\<open>checker_doors.py\<close> in the registry; and
  when \<^verbatim>\<open>checker_walls.py\<close> fails with a \<^verbatim>\<open>SystemExit\<close>, what \<^verbatim>\<open>discover()\<close> raises is
  that \<^verbatim>\<open>SystemExit\<close>.
\<close>

theorem discover_failure_keeps_partial_registry:
  "fst (discover (Some files_broken) fresh) =
     Inl (OrchestratorError (FailedToLoad ''checker_walls.py'' ''invalid syntax'')) \<and>
   checkers fresh = [] \<and>
   map fst (checkers (snd (discover (Some files_broken) fresh))) = [''checker_doors.py''] \<and>
   checkers (snd (discover (Some files_broken) fresh)) \<noteq> checkers fresh \<and>
   fst (discover (Some files_aborting) fresh) = Inl (Propagated ''SystemExit'')"
  by (simp add: discover_files_broken discover_files_aborting)
     (simp add: fresh_def init_orchestrator_def)

section \<open>Discovering again\<close>

lemma map_add_absorb:
  "(m1 ++ m2 = m2) = (dom m1 \<subseteq> dom m2)"
proof
  assume eq: "m1 ++ m2 = m2"
  have "dom m1 \<subseteq> dom (m1 ++ m2)" by auto
  with eq show "dom m1 \<subseteq> dom m2" by simp
next
  assume sub: "dom m1 \<subseteq> dom m2"
  show "m1 ++ m2 = m2"
  proof
    fix x
    show "(m1 ++ m2) x = m2 x"
    proof (cases "m2 x")
      case None
      then have "x \<notin> dom m2" by auto
      with sub have "x \<notin> dom m1" by blast
      then have "m1 x = None" by auto
      with None show ?thesis by (simp add: map_add_def)
    next
      case (Some y)
      then show ?thesis by (simp add: map_add_def)
    qed
  qed
qed

lemma discover_files_doors:
  "discover (Some files_doors) fresh =
     (Inr [(''checker_doors.py'', [''check_door_accessibility''])],
      \<lparr>tools_dir = ''tools'',
       checkers = [(''checker_doors.py'', [(''check_door_accessibility'', check_ok 11)])],
       loaded_modules = [(''checker_doors.py'', doors_module)],
       execution_log = [LogScanning ''tools'', LogFoundFiles 1,
         LogFoundFunctions ''checker_doors.py'' [''check_door_accessibility'']]\<rparr>)"
  by (simp add: eval_discover files_doors_def doors_module_def)

lemma discover_files_walls_doors:
  "discover (Some files_walls_doors) fresh =
     (Inr [(''checker_doors.py'', [''check_door_accessibility'']),
           (''checker_walls.py'', [''check_wall_fire_rating''])],
      \<lparr>tools_dir = ''tools'',
       checkers = [(''checker_doors.py'', [(''check_door_accessibility'', check_ok 11)]),
                   (''checker_walls.py'', [(''check_wall_fire_rating'', check_ok 12)])],
       loaded_modules = [(''checker_doors.py'', doors_module), (''checker_walls.py'', walls_module)],
       execution_log = [LogScanning ''tools'', LogFoundFiles 2,
         LogFoundFunctions ''checker_doors.py'' [''check_door_accessibility''],
         LogFoundFunctions ''checker_walls.py'' [''check_wall_fire_rating'']]\<rparr>)"
  by (simp add: eval_discover files_walls_doors_def doors_module_def walls_module_def)

lemma discover_files_walls:
  "discover (Some files_walls) fresh =
     (Inr [(''checker_walls.py'', [''check_wall_fire_rating''])],
      \<lparr>tools_dir = ''tools'',
       checkers = [(''checker_walls.py'', [(''check_wall_fire_rating'', check_ok 12)])],
       loaded_modules = [(''checker_walls.py'', walls_module)],
       execution_log = [LogScanning ''tools'', LogFoundFiles 1,
         LogFoundFunctions ''checker_walls.py'' [''check_wall_fire_rating'']]\<rparr>)"
  by (simp add: eval_discover files_walls_def walls_module_def)

text \<open>Discovering the doors-only directory on an instance that has walls and doors.\<close>

lemma rediscover_doors_after_walls_doors:
  "discover (Some files_doors) (snd (discover (Some files_walls_doors) fresh)) =
     (Inr [(''checker_doors.py'', [''check_door_accessibility'']),
           (''checker_walls.py'', [''check_wall_fire_rating''])],
      \<lparr>tools_dir = ''tools'',
       checkers = [(''checker_doors.py'', [(''check_door_accessibility'', check_ok 11)]),
                   (''checker_walls.py'', [(''check_wall_fire_rating'', check_ok 12)])],
       loaded_modules = [(''checker_doors.py'', doors_module), (''checker_walls.py'', walls_module)],
       execution_log = [LogScanning ''tools'', LogFoundFiles 2,
         LogFoundFunctions ''checker_doors.py'' [''check_door_accessibility''],
         LogFoundFunctions ''checker_walls.py'' [''check_wall_fire_rating''],
         LogScanning ''tools'', LogFoundFiles 1,
         LogFoundFunctions ''checker_doors.py'' [''check_door_accessibility'']]\<rparr>)"
  unfolding discover_files_walls_doors snd_conv
  by (simp add: discover_def append_log_def checker_files_def glob_match_def
        suffix_to_prefix getmembers_def dict_of_pairs_def Let_def files_doors_def doors_module_def)

text \<open>Discovering walls and doors on an instance that has walls only.\<close>

lemma rediscover_walls_doors_after_walls:
  "discover (Some files_walls_doors) (snd (discover (Some files_walls) fresh)) =
     (Inr [(''checker_walls.py'', [''check_wall_fire_rating'']),
           (''checker_doors.py'', [''check_door_accessibility''])],
      \<lparr>tools_dir = ''tools'',
       checkers = [(''checker_walls.py'', [(''check_wall_fire_rating'', check_ok 12)]),
                   (''checker_doors.py'', [(''check_door_accessibility'', check_ok 11)])],
       loaded_modules = [(''checker_walls.py'', walls_module), (''checker_doors.py'', doors_module)],
       execution_log = [LogScanning ''tools'', LogFoundFiles 1,
         LogFoundFunctions ''checker_walls.py'' [''check_wall_fire_rating''],
         LogScanning ''tools'', LogFoundFiles 2,
         LogFoundFunctions ''checker_doors.py'' [''check_door_accessibility''],
         LogFoundFunctions ''checker_walls.py'' [''check_wall_fire_rating'']]\<rparr>)"
  unfolding discover_files_walls snd_conv
  by (simp add: discover_def append_log_def checker_files_def glob_match_def
        suffix_to_prefix getmembers_def dict_of_pairs_def Let_def files_walls_doors_def
        doors_module_def walls_module_def)

text \<open>
  C3 (amended). A further successful \<^verbatim>\<open>discover()\<close> does not replace the registry: it
  assigns the entries of the new scan into the registry that is there. Afterwards the
  registry, read as a mapping, is the previous one overridden by the registry that
  \<^verbatim>\<open>discover()\<close> on a fresh orchestrator builds from the same directory; its modules
  are those of both, so a module registered before that the new scan does not register
  keeps its entry; the returned mapping lists exactly this registry. It is the fresh
  orchestrator's registry exactly when every module registered before is registered
  again by the new scan.
\<close>

theorem rediscover_overlays:
  assumes "discover (Some entries) s = (Inr r, s')"
  shows "\<exists>r0 s0.
           discover (Some entries) (init_orchestrator (tools_dir s)) = (Inr r0, s0) \<and>
           checkers s0 = register (rule_modules (checker_files entries)) [] \<and>
           checkers s' = register (rule_modules (checker_files entries)) (checkers s) \<and>
           map_of (checkers s') = map_of (checkers s) ++ map_of (checkers s0) \<and>
           fst ` set (checkers s') = fst ` set (checkers s) \<union> fst ` set (checkers s0) \<and>
           r = map (\<lambda>(name, funcs). (name, map fst funcs)) (checkers s') \<and>
           (map_of (checkers s') = map_of (checkers s0)) =
             (fst ` set (checkers s) \<subseteq> fst ` set (checkers s0))"
proof -
  let ?es = "rule_modules (checker_files entries)"
  have all: "\<forall>f\<in>set (checker_files entries). loads f"
    using assms by (rule discover_Inr_all_load)
  from discover_all_load [OF all, of s] assms
  have reg: "checkers s' = register ?es (checkers s)"
    and ret: "r = map (\<lambda>(name, funcs). (name, map fst funcs)) (checkers s')"
    by auto
  from discover_all_load [OF all, of "init_orchestrator (tools_dir s)"]
  obtain r0 s0 where d0: "discover (Some entries) (init_orchestrator (tools_dir s)) = (Inr r0, s0)"
      and reg0: "checkers s0 = register ?es []"
    by (auto simp: init_orchestrator_def)
  have maps: "map_of (checkers s') = map_of (checkers s) ++ map_of (checkers s0)"
    unfolding reg reg0 by (rule map_of_register_fresh)
  have keys: "fst ` set (checkers s') = fst ` set (checkers s) \<union> fst ` set (checkers s0)"
    unfolding reg reg0 by (simp add: key_set_register)
  have "(map_of (checkers s') = map_of (checkers s0)) =
      (dom (map_of (checkers s)) \<subseteq> dom (map_of (checkers s0)))"
    unfolding maps by (rule map_add_absorb)
  then have same: "(map_of (checkers s') = map_of (checkers s0)) =
      (fst ` set (checkers s) \<subseteq> fst ` set (checkers s0))"
    by (simp add: dom_map_of_conv_image_fst)
  show ?thesis
  proof (intro exI conjI)
    show "discover (Some entries) (init_orchestrator (tools_dir s)) = (Inr r0, s0)" by (rule d0)
    show "checkers s0 = register ?es []" by (rule reg0)
    show "checkers s' = register ?es (checkers s)" by (rule reg)
    show "map_of (checkers s') = map_of (checkers s) ++ map_of (checkers s0)" by (rule maps)
    show "fst ` set (checkers s') = fst ` set (checkers s) \<union> fst ` set (checkers s0)"
      by (rule keys)
    show "r = map (\<lambda>(name, funcs). (name, map fst funcs)) (checkers s')" by (rule ret)
    show "(map_of (checkers s') = map_of (checkers s0)) =
        (fst ` set (checkers s) \<subseteq> fst ` set (checkers s0))" by (rule same)
  qed
qed

theorem rediscover_overlays_witness:
  "discover (Some files_walls_doors) (snd (discover (Some files_walls) fresh)) =
     (Inr [(''checker_walls.py'', [''check_wall_fire_rating'']),
           (''checker_doors.py'', [''check_door_accessibility''])],
      snd (discover (Some files_walls_doors) (snd (discover (Some files_walls) fresh)))) \<and>
   (\<exists>r0 s0.
      discover (Some files_walls_doors)
        (init_orchestrator (tools_dir (snd (discover (Some files_walls) fresh)))) = (Inr r0, s0) \<and>
      map_of (checkers (snd (discover (Some files_walls_doors) (snd (discover (Some files_walls) fresh))))) =
        map_of (checkers (snd (discover (Some files_walls) fresh))) ++ map_of (checkers s0))"
proof -
  have h: "discover (Some files_walls_doors) (snd (discover (Some files_walls) fresh)) =
     (Inr [(''checker_walls.py'', [''check_wall_fire_rating'']),
           (''checker_doors.py'', [''check_door_accessibility''])],
      snd (discover (Some files_walls_doors) (snd (discover (Some files_walls) fresh))))"
    by (simp add: rediscover_walls_doors_after_walls)
  show ?thesis
    using h rediscover_overlays [OF h]
    by (elim exE conjE, intro conjI exI) assumption+
qed

text \<open>
  After \<^verbatim>\<open>discover()\<close> over walls and doors, a \<^verbatim>\<open>discover()\<close> over a directory with
  only \<^verbatim>\<open>checker_doors.py\<close> still returns and keeps \<^verbatim>\<open>checker_walls.py\<close>; a new
  orchestrator over that directory has the doors module alone.
\<close>

theorem rediscover_keeps_stale_module:
  "fst (discover (Some files_walls_doors) fresh) =
     Inr [(''checker_doors.py'', [''check_door_accessibility'']),
          (''checker_walls.py'', [''check_wall_fire_rating''])] \<and>
   fst (discover (Some files_doors) (snd (discover (Some files_walls_doors) fresh))) =
     Inr [(''checker_doors.py'', [''check_door_accessibility'']),
          (''checker_walls.py'', [''check_wall_fire_rating''])] \<and>
   fst (discover (Some files_doors) fresh) =
     Inr [(''checker_doors.py'', [''check_door_accessibility''])] \<and>
   map fst (checkers (snd (discover (Some files_doors) (snd (discover (Some files_walls_doors) fresh))))) \<noteq>
     map fst (checkers (snd (discover (Some files_doors) fresh)))"
  by (simp add: discover_files_doors discover_files_walls_doors
        rediscover_doors_after_walls_doors [unfolded discover_files_walls_doors snd_conv])

section \<open>\<^verbatim>\<open>run\<close> as a whole\<close>

lemma run_no_checkers:
  "checkers s = [] \<Longrightarrow>
     run lw model flt kwargs s = (Inl (OrchestratorError NoCheckersDiscovered), s)"
  by (simp add: run_def)

lemma run_wrong_model:
  "checkers s \<noteq> [] \<Longrightarrow> \<not> isinstance_ifc model \<Longrightarrow>
     run lw model flt kwargs s = (Inl (OrchestratorError ModelNotIfcFile), s)"
  by (simp add: run_def)

lemma run_loop:
  "run_modules lw model flt kwargs (checkers s) (start_locals s) =
     (first_escape model kwargs (selected lw flt (checkers s)), final_locals lw model flt kwargs s)"
  unfolding run_modules_selected final_locals_def
  using run_selected_fst [of model kwargs "selected lw flt (checkers s)" "start_locals s"]
  by (cases "run_selected model kwargs (selected lw flt (checkers s)) (start_locals s)") simp

text \<open>The two ways in which \<^verbatim>\<open>run\<close> ends when its preconditions hold.\<close>

lemma run_final:
  assumes "checkers s \<noteq> []" and "isinstance_ifc model"
    and "first_escape model kwargs (selected lw flt (checkers s)) = None"
  shows "run lw model flt kwargs s =
           (Inr \<lparr>results = map snd (all_results (final_locals lw model flt kwargs s)),
                 summary = \<lparr>total_checkers = stats_total (final_locals lw model flt kwargs s),
                            successful_checkers = stats_successful (final_locals lw model flt kwargs s),
                            failed_checkers = stats_failed (final_locals lw model flt kwargs s),
                            total_results = length (all_results (final_locals lw model flt kwargs s)),
                            checker_details = stats_details (final_locals lw model flt kwargs s)\<rparr>,
                 log = trace (final_locals lw model flt kwargs s) @
                         closing_lines (final_locals lw model flt kwargs s)\<rparr>,
            s\<lparr>execution_log := trace (final_locals lw model flt kwargs s) @
                         closing_lines (final_locals lw model flt kwargs s)\<rparr>)"
  using assms run_loop [of lw model flt kwargs s]
  by (simp add: run_def Let_def closing_lines_def start_locals_def)

lemma run_escape:
  assumes "checkers s \<noteq> []" and "isinstance_ifc model"
    and "first_escape model kwargs (selected lw flt (checkers s)) = Some x"
  shows "run lw model flt kwargs s =
           (Inl (Propagated x), s\<lparr>execution_log := trace (final_locals lw model flt kwargs s)\<rparr>)"
  using assms run_loop [of lw model flt kwargs s]
  by (simp add: run_def Let_def start_locals_def)

lemma run_Inr_preconditions:
  "run lw model flt kwargs s = (Inr rep, s') \<Longrightarrow>
     checkers s \<noteq> [] \<and> isinstance_ifc model \<and>
     first_escape model kwargs (selected lw flt (checkers s)) = None"
proof -
  assume r: "run lw model flt kwargs s = (Inr rep, s')"
  have a: "checkers s \<noteq> []"
    using r run_no_checkers [of s lw model flt kwargs] by auto
  have b: "isinstance_ifc model"
    using r a run_wrong_model [of s model lw flt kwargs] by auto
  have c: "first_escape model kwargs (selected lw flt (checkers s)) = None"
  proof (cases "first_escape model kwargs (selected lw flt (checkers s))")
    case None
    then show ?thesis .
  next
    case (Some x)
    from run_escape [OF a b Some] r show ?thesis by simp
  qed
  from a b c show ?thesis by simp
qed

text \<open>The loop variables at the end of the loop, field by field.\<close>

lemma final_locals_results:
  "all_results (final_locals lw model flt kwargs s) =
     admit_all model kwargs (called model kwargs (selected lw flt (checkers s))) []"
  by (simp add: final_locals_def run_selected_all_results start_locals_def)

lemma final_locals_total:
  "stats_total (final_locals lw model flt kwargs s) =
     length (called model kwargs (selected lw flt (checkers s)))"
  by (simp add: final_locals_def run_selected_total start_locals_def)

lemma final_locals_failed:
  "stats_failed (final_locals lw model flt kwargs s) =
     length (filter (\<lambda>(fn, n, f). caught_error (f model kwargs) \<noteq> None)
               (called model kwargs (selected lw flt (checkers s))))"
  by (simp add: final_locals_def run_selected_failed start_locals_def)

lemma final_locals_successful:
  "stats_successful (final_locals lw model flt kwargs s) =
     length (filter (\<lambda>(fn, n, f). valid_output (f model kwargs))
               (called model kwargs (selected lw flt (checkers s))))"
  by (simp add: final_locals_def run_selected_successful start_locals_def)

lemma final_locals_details:
  "stats_details (final_locals lw model flt kwargs s) =
     concat (map (\<lambda>(fn, n, f). detail_of fn n (f model kwargs))
               (called model kwargs (selected lw flt (checkers s))))"
  by (simp add: final_locals_def run_selected_details start_locals_def)

lemma run_selected_trace_new:
  "\<exists>new. trace (snd (run_selected model kwargs sel st)) = trace st @ new \<and>
         running_names new = names_of (called model kwargs sel)"
proof -
  from run_selected_trace_prefix [of st model kwargs sel]
  obtain new where new: "trace (snd (run_selected model kwargs sel st)) = trace st @ new"
    by (auto simp: prefix_def)
  have "running_names (trace st) @ running_names new =
      running_names (trace st) @ names_of (called model kwargs sel)"
    using run_selected_running [of model kwargs sel st] by (simp add: new running_names_append)
  then have "running_names new = names_of (called model kwargs sel)"
    by simp
  with new show ?thesis by blast
qed

lemma final_locals_trace:
  "\<exists>new. trace (final_locals lw model flt kwargs s) =
           execution_log s @ [LogBannerOpen, LogStart, LogBannerClose] @ new \<and>
         running_names new = names_of (called model kwargs (selected lw flt (checkers s)))"
proof -
  obtain new where new: "trace (final_locals lw model flt kwargs s) = trace (start_locals s) @ new"
      and names: "running_names new = names_of (called model kwargs (selected lw flt (checkers s)))"
    unfolding final_locals_def
    using run_selected_trace_new [of model kwargs "selected lw flt (checkers s)" "start_locals s"]
    by blast
  have "trace (final_locals lw model flt kwargs s) =
      execution_log s @ [LogBannerOpen, LogStart, LogBannerClose] @ new"
    by (simp add: new start_locals_def)
  with names show ?thesis by blast
qed

lemma run_log_prefix:
  "prefix (execution_log s) (execution_log (snd (run lw model flt kwargs s)))"
proof (cases "checkers s \<noteq> [] \<and> isinstance_ifc model")
  case True
  then have a: "checkers s \<noteq> []" and b: "isinstance_ifc model" by simp_all
  obtain new where new: "trace (final_locals lw model flt kwargs s) =
      execution_log s @ [LogBannerOpen, LogStart, LogBannerClose] @ new"
    using final_locals_trace [of lw model flt kwargs s] by blast
  show ?thesis
  proof (cases "first_escape model kwargs (selected lw flt (checkers s))")
    case None
    show ?thesis
      by (simp add: run_final [OF a b None] new)
  next
    case (Some x)
    show ?thesis
      by (simp add: run_escape [OF a b Some] new)
  qed
next
  case False
  then show ?thesis by (auto simp: run_def)
qed

lemma run_checkers: "checkers (snd (run lw model flt kwargs s)) = checkers s"
proof (cases "checkers s \<noteq> [] \<and> isinstance_ifc model")
  case True
  then have a: "checkers s \<noteq> []" and b: "isinstance_ifc model" by simp_all
  show ?thesis
  proof (cases "first_escape model kwargs (selected lw flt (checkers s))")
    case None
    show ?thesis
      by (simp add: run_final [OF a b None])
  next
    case (Some x)
    show ?thesis
      by (simp add: run_escape [OF a b Some])
  qed
next
  case False
  then show ?thesis by (auto simp: run_def)
qed

section \<open>Evaluating \<^verbatim>\<open>run\<close> on the concrete inputs\<close>

lemma dom_door_result: "dom (door_result st) = required_keys"
  by (auto simp: door_result_def required_keys_def split: if_splits)

lemmas eval_run =
  run_def run_checker_def skipped_def checker_failed_def checker_succeeded_def full_name_def
  assign_object_def Let_def dom_door_result

lemma run_doors:
  "run ascii_lower (IfcFile ()) None () (snd (discover (Some files_doors) fresh)) =
     (Inr \<lparr>results = [add_metadata ''checker_doors.py'' ''check_door_accessibility''
                        (door_result ''pass'')],
           summary = \<lparr>total_checkers = 1, successful_checkers = 1, failed_checkers = 0,
                      total_results = 1,
                      checker_details =
                        [DetailSuccess ''checker_doors.py::check_door_accessibility'' 1]\<rparr>,
           log = [LogScanning ''tools'', LogFoundFiles 1,
                  LogFoundFunctions ''checker_doors.py'' [''check_door_accessibility''],
                  LogBannerOpen, LogStart, LogBannerClose,
                  LogRunning ''checker_doors.py::check_door_accessibility'', LogResults 1,
                  LogBannerOpen, LogComplete, LogCheckersRun 1 1, LogCollected 1,
                  LogBannerClose]\<rparr>,
      \<lparr>tools_dir = ''tools'',
       checkers = [(''checker_doors.py'', [(''check_door_accessibility'', check_ok 11)])],
       loaded_modules = [(''checker_doors.py'', doors_module)],
       execution_log = [LogScanning ''tools'', LogFoundFiles 1,
                  LogFoundFunctions ''checker_doors.py'' [''check_door_accessibility''],
                  LogBannerOpen, LogStart, LogBannerClose,
                  LogRunning ''checker_doors.py::check_door_accessibility'', LogResults 1,
                  LogBannerOpen, LogComplete, LogCheckersRun 1 1, LogCollected 1,
                  LogBannerClose]\<rparr>)"
  unfolding discover_files_doors snd_conv
  by (simp add: eval_run check_ok_def)

lemma discover_files_doors_exits:
  "discover (Some files_doors_exits) fresh =
     (Inr [(''checker_doors.py'', [''check_door_accessibility'']),
           (''checker_exits.py'', [''check_exit_signs'']),
           (''checker_walls.py'', [''check_wall_fire_rating''])],
      \<lparr>tools_dir = ''tools'',
       checkers = [(''checker_doors.py'', [(''check_door_accessibility'', check_ok 11)]),
                   (''checker_exits.py'', [(''check_exit_signs'', check_exits)]),
                   (''checker_walls.py'', [(''check_wall_fire_rating'', check_ok 12)])],
       loaded_modules = [(''checker_doors.py'', doors_module), (''checker_exits.py'', exits_module),
                         (''checker_walls.py'', walls_module)],
       execution_log = [LogScanning ''tools'', LogFoundFiles 3,
         LogFoundFunctions ''checker_doors.py'' [''check_door_accessibility''],
         LogFoundFunctions ''checker_exits.py'' [''check_exit_signs''],
         LogFoundFunctions ''checker_walls.py'' [''check_wall_fire_rating'']]\<rparr>)"
  by (simp add: eval_discover files_doors_exits_def doors_module_def walls_module_def
        exits_module_def)

text \<open>
  A run in which the second of three checkers calls \<^verbatim>\<open>sys.exit()\<close>: the first checker
  has run, the third is not called, and \<^verbatim>\<open>run()\<close> ends with the \<^verbatim>\<open>SystemExit\<close>.
\<close>

lemma run_doors_exits:
  "run ascii_lower (IfcFile ()) None () (snd (discover (Some files_doors_exits) fresh)) =
     (Inl (Propagated ''SystemExit''),
      \<lparr>tools_dir = ''tools'',
       checkers = [(''checker_doors.py'', [(''check_door_accessibility'', check_ok 11)]),
                   (''checker_exits.py'', [(''check_exit_signs'', check_exits)]),
                   (''checker_walls.py'', [(''check_wall_fire_rating'', check_ok 12)])],
       loaded_modules = [(''checker_doors.py'', doors_module), (''checker_exits.py'', exits_module),
                         (''checker_walls.py'', walls_module)],
       execution_log = [LogScanning ''tools'', LogFoundFiles 3,
         LogFoundFunctions ''checker_doors.py'' [''check_door_accessibility''],
         LogFoundFunctions ''checker_exits.py'' [''check_exit_signs''],
         LogFoundFunctions ''checker_walls.py'' [''check_wall_fire_rating''],
         LogBannerOpen, LogStart, LogBannerClose,
         LogRunning ''checker_doors.py::check_door_accessibility'', LogResults 1,
         LogRunning ''checker_exits.py::check_exit_signs'']\<rparr>)"
  unfolding discover_files_doors_exits snd_conv
  by (simp add: eval_run check_ok_def check_exits_def)

lemma discover_nothing:
  assumes "discover d (init_orchestrator dir) = (Inr [], s)"
  shows "checkers s = []"
proof (cases d)
  case None
  with assms show ?thesis by (simp add: discover_None)
next
  case (Some entries)
  with assms have d: "discover (Some entries) (init_orchestrator dir) = (Inr [], s)" by simp
  then have "\<forall>f\<in>set (checker_files entries). loads f"
    by (rule discover_Inr_all_load)
  from discover_all_load [OF this, of "init_orchestrator dir"] d
  have "[] = map (\<lambda>(name, funcs). (name, map fst funcs)) (checkers s)"
    by auto
  then show ?thesis by simp
qed

lemma selected_doors:
  "selected lw None (checkers (snd (discover (Some files_doors) fresh))) =
     [(''checker_doors.py'', ''check_door_accessibility'', check_ok 11)]"
  by (simp add: discover_files_doors selected_def skipped_def)

lemma selected_doors_exits:
  "selected lw None (checkers (snd (discover (Some files_doors_exits) fresh))) =
     [(''checker_doors.py'', ''check_door_accessibility'', check_ok 11),
      (''checker_exits.py'', ''check_exit_signs'', check_exits),
      (''checker_walls.py'', ''check_wall_fire_rating'', check_ok 12)]"
  by (simp add: discover_files_doors_exits selected_def skipped_def)

text \<open>
  C5 (amended). \<^verbatim>\<open>run()\<close> raises an \<^verbatim>\<open>OrchestratorError\<close> in exactly two cases, tested in
  this order before anything else happens: the registry is empty (as it is on a new
  orchestrator, and after a \<^verbatim>\<open>discover()\<close> that found no rule), or the model is not an
  \<^verbatim>\<open>ifcopenshell.file\<close>. In both the state is untouched: no trace line is appended, so no
  checker was called, and no report exists. In the other cases \<^verbatim>\<open>run()\<close> calls the
  selected checkers in order, and it returns a report if and only if no call raises an
  exception that gets past the handler \<^verbatim>\<open>except Exception\<close> (a \<^verbatim>\<open>SystemExit\<close> or
  \<^verbatim>\<open>KeyboardInterrupt\<close>, or an exception whose \<^verbatim>\<open>str()\<close> raises). When a call does,
  \<^verbatim>\<open>run()\<close> ends with the first such exception: there is no report and no
  \<^verbatim>\<open>OrchestratorError\<close>, the later checkers are not called, the registry is as before,
  and the trace has gained the lines up to the \<^verbatim>\<open>Running:\<close> line of that call. Every
  call of a checker is taken to end.
\<close>

theorem run_exits:
  fixes s :: "('m, 'k) orchestrator"
  shows "(checkers s = [] \<longrightarrow>
            run lw model flt kwargs s = (Inl (OrchestratorError NoCheckersDiscovered), s)) \<and>
         (checkers s \<noteq> [] \<and> \<not> isinstance_ifc model \<longrightarrow>
            run lw model flt kwargs s = (Inl (OrchestratorError ModelNotIfcFile), s)) \<and>
         ((\<exists>e s'. run lw model flt kwargs s = (Inl (OrchestratorError e), s')) =
            (checkers s = [] \<or> \<not> isinstance_ifc model)) \<and>
         (checkers s \<noteq> [] \<and> isinstance_ifc model \<longrightarrow>
            ((\<exists>rep s'. run lw model flt kwargs s = (Inr rep, s')) =
               (first_escape model kwargs (selected lw flt (checkers s)) = None)) \<and>
            (\<forall>x. first_escape model kwargs (selected lw flt (checkers s)) = Some x \<longrightarrow>
               (\<exists>s' new.
                  run lw model flt kwargs s = (Inl (Propagated x), s') \<and>
                  checkers s' = checkers s \<and>
                  execution_log s' =
                    execution_log s @ [LogBannerOpen, LogStart, LogBannerClose] @ new \<and>
                  running_names new =
                    names_of (called model kwargs (selected lw flt (checkers s))) \<and>
                  prefix (called model kwargs (selected lw flt (checkers s)))
                    (selected lw flt (checkers s))))) \<and>
         checkers (init_orchestrator dir :: ('m, 'k) orchestrator) = [] \<and>
         (discover d (init_orchestrator dir) = (Inr [], s) \<longrightarrow>
            run lw model flt kwargs s = (Inl (OrchestratorError NoCheckersDiscovered), s))"
proof -
  let ?sel = "selected lw flt (checkers s)"
  have esc: "\<exists>s' new.
      run lw model flt kwargs s = (Inl (Propagated x), s') \<and>
      checkers s' = checkers s \<and>
      execution_log s' = execution_log s @ [LogBannerOpen, LogStart, LogBannerClose] @ new \<and>
      running_names new = names_of (called model kwargs ?sel) \<and>
      prefix (called model kwargs ?sel) ?sel"
    if a: "checkers s \<noteq> []" and b: "isinstance_ifc model"
      and x: "first_escape model kwargs ?sel = Some x" for x
  proof -
    obtain new where new: "trace (final_locals lw model flt kwargs s) =
        execution_log s @ [LogBannerOpen, LogStart, LogBannerClose] @ new"
        and names: "running_names new = names_of (called model kwargs ?sel)"
      using final_locals_trace [of lw model flt kwargs s] by blast
    let ?s' = "s\<lparr>execution_log := trace (final_locals lw model flt kwargs s)\<rparr>"
    show ?thesis
    proof (intro exI conjI)
      show "run lw model flt kwargs s = (Inl (Propagated x), ?s')"
        by (rule run_escape [OF a b x])
      show "checkers ?s' = checkers s" by simp
      show "execution_log ?s' = execution_log s @ [LogBannerOpen, LogStart, LogBannerClose] @ new"
        by (simp add: new)
      show "running_names new = names_of (called model kwargs ?sel)" by (rule names)
      show "prefix (called model kwargs ?sel) ?sel" by (rule called_prefix)
    qed
  qed
  have rep: "(\<exists>rep s'. run lw model flt kwargs s = (Inr rep, s')) =
      (first_escape model kwargs ?sel = None)"
    if a: "checkers s \<noteq> []" and b: "isinstance_ifc model"
  proof (cases "first_escape model kwargs ?sel")
    case None
    from run_final [OF a b None] None show ?thesis by simp
  next
    case (Some x)
    from run_escape [OF a b Some] Some show ?thesis by simp
  qed
  have err: "(\<exists>e s'. run lw model flt kwargs s = (Inl (OrchestratorError e), s')) =
      (checkers s = [] \<or> \<not> isinstance_ifc model)"
  proof (cases "checkers s = [] \<or> \<not> isinstance_ifc model")
    case True
    then show ?thesis
      using run_no_checkers [of s lw model flt kwargs] run_wrong_model [of s model lw flt kwargs]
      by blast
  next
    case False
    then have a: "checkers s \<noteq> []" and b: "isinstance_ifc model" by simp_all
    show ?thesis
    proof (cases "first_escape model kwargs ?sel")
      case None
      from run_final [OF a b None] False show ?thesis by simp
    next
      case (Some x)
      from run_escape [OF a b Some] False show ?thesis by simp
    qed
  qed
  show ?thesis
    using esc rep err discover_nothing [of d dir s]
    by (simp add: run_no_checkers run_wrong_model init_orchestrator_def)
qed

theorem run_exits_witness:
  "run ascii_lower (IfcFile ()) None () fresh =
     (Inl (OrchestratorError NoCheckersDiscovered), fresh) \<and>
   run ascii_lower NotIfcFile None () (snd (discover (Some files_doors) fresh)) =
     (Inl (OrchestratorError ModelNotIfcFile), snd (discover (Some files_doors) fresh)) \<and>
   (\<exists>rep s'. run ascii_lower (IfcFile ()) None () (snd (discover (Some files_doors) fresh)) =
      (Inr rep, s')) \<and>
   (\<exists>s'. run ascii_lower (IfcFile ()) None () (snd (discover (Some files_doors_exits) fresh)) =
      (Inl (Propagated ''SystemExit''), s')) \<and>
   run ascii_lower (IfcFile ()) None () (snd (discover (Some []) fresh)) =
     (Inl (OrchestratorError NoCheckersDiscovered), snd (discover (Some []) fresh))"
proof -
  have a: "checkers fresh = []"
    by (simp add: fresh_def init_orchestrator_def)
  have b: "checkers (snd (discover (Some files_doors) fresh)) \<noteq> []"
    by (simp add: discover_files_doors)
  have b': "checkers (snd (discover (Some files_doors_exits) fresh)) \<noteq> []"
    by (simp add: discover_files_doors_exits)
  have c: "\<not> isinstance_ifc (NotIfcFile :: unit pymodel)" "isinstance_ifc (IfcFile ())"
    by simp_all
  have d: "first_escape (IfcFile ()) ()
      (selected ascii_lower None (checkers (snd (discover (Some files_doors) fresh)))) = None"
    by (simp add: selected_doors check_ok_def)
  have e: "first_escape (IfcFile ()) ()
      (selected ascii_lower None (checkers (snd (discover (Some files_doors_exits) fresh)))) =
      Some ''SystemExit''"
    by (simp add: selected_doors_exits check_ok_def check_exits_def)
  have 1: "run ascii_lower (IfcFile ()) None () fresh =
      (Inl (OrchestratorError NoCheckersDiscovered), fresh)"
    using a run_exits [of fresh ascii_lower "IfcFile ()" None "()"] by blast
  have 2: "run ascii_lower NotIfcFile None () (snd (discover (Some files_doors) fresh)) =
      (Inl (OrchestratorError ModelNotIfcFile), snd (discover (Some files_doors) fresh))"
    using b c run_exits [of "snd (discover (Some files_doors) fresh)" ascii_lower NotIfcFile None "()"]
    by blast
  have 3: "\<exists>rep s'. run ascii_lower (IfcFile ()) None () (snd (discover (Some files_doors) fresh)) =
      (Inr rep, s')"
    using b c d
      run_exits [of "snd (discover (Some files_doors) fresh)" ascii_lower "IfcFile ()" None "()"]
    by blast
  have 4: "\<exists>s'. run ascii_lower (IfcFile ()) None () (snd (discover (Some files_doors_exits) fresh)) =
      (Inl (Propagated ''SystemExit''), s')"
    using b' c e
      run_exits [of "snd (discover (Some files_doors_exits) fresh)" ascii_lower "IfcFile ()" None "()"]
    by blast
  have f: "discover (Some []) (init_orchestrator ''tools'') =
      (Inr [], snd (discover (Some []) fresh))"
    by (simp add: eval_discover)
  have 5: "run ascii_lower (IfcFile ()) None () (snd (discover (Some []) fresh)) =
      (Inl (OrchestratorError NoCheckersDiscovered), snd (discover (Some []) fresh))"
    using f
      run_exits [where s = "snd (discover (Some []) fresh)" and d = "Some []" and dir = "''tools''"
        and lw = ascii_lower and model = "IfcFile ()" and flt = None and kwargs = "()"]
    by blast
  from 1 2 3 4 5 show ?thesis by (intro conjI)
qed

text \<open>
  With a registry that is not empty and a model that is an \<^verbatim>\<open>ifcopenshell.file\<close>,
  \<^verbatim>\<open>run()\<close> returns no report when a checker calls \<^verbatim>\<open>sys.exit()\<close>: the \<^verbatim>\<open>SystemExit\<close>
  leaves \<^verbatim>\<open>run()\<close>.
\<close>

theorem run_ends_with_system_exit:
  "checkers (snd (discover (Some files_doors_exits) fresh)) \<noteq> [] \<and>
   isinstance_ifc (IfcFile ()) \<and>
   fst (run ascii_lower (IfcFile ()) None () (snd (discover (Some files_doors_exits) fresh))) =
     Inl (Propagated ''SystemExit'')"
  by (simp add: run_doors_exits) (simp add: discover_files_doors_exits)

section \<open>The filter\<close>

lemma selected_matching:
  "flt \<noteq> [] \<Longrightarrow> selected lw (Some flt) cs = matching lw flt cs"
proof (induction cs)
  case Nil
  show ?case by (simp add: selected_def matching_def)
next
  case (Cons c cs)
  obtain fn fs where c: "c = (fn, fs)" by (cases c)
  have sel: "selected lw (Some flt) ((fn, fs) # cs) =
      (if skipped lw (Some flt) fn then [] else map (\<lambda>(n, f). (fn, n, f)) fs) @
      selected lw (Some flt) cs"
    by (simp add: selected_def)
  have mat: "matching lw flt ((fn, fs) # cs) =
      (if sublist (lw flt) (lw fn) then map (\<lambda>(n, f). (fn, n, f)) fs else []) @
      matching lw flt cs"
    by (simp add: matching_def)
  have skip: "skipped lw (Some flt) fn = (\<not> sublist (lw flt) (lw fn))"
    using Cons.prems by (simp add: skipped_def)
  show ?case
    unfolding c sel mat skip
    using Cons.IH [OF Cons.prems]
    by simp
qed

lemma selected_None:
  "selected lw None cs = concat (map (\<lambda>(fn, fs). map (\<lambda>(n, f). (fn, n, f)) fs) cs)"
  by (simp add: selected_def skipped_def)

lemma selected_empty_filter: "selected lw (Some []) cs = selected lw None cs"
  by (simp add: selected_def skipped_def)

lemma matching_iff:
  "((fn, n, f) \<in> set (matching lw flt cs)) =
     (\<exists>fs. (fn, fs) \<in> set cs \<and> (n, f) \<in> set fs \<and> sublist (lw flt) (lw fn))"
  by (force simp: matching_def split: if_splits)

lemma selected_iff:
  "((fn, n, f) \<in> set (selected lw flt cs)) =
     (\<exists>fs. (fn, fs) \<in> set cs \<and> (n, f) \<in> set fs \<and> \<not> skipped lw flt fn)"
  by (force simp: selected_def split: if_splits)

text \<open>When no exception leaves the loop, every call adds one detail, under its name.\<close>

lemma detail_of_name:
  "escape_of out = None \<Longrightarrow> map detail_checker (detail_of fn n out) = [full_name fn n]"
  by (cases out rule: caught_error.cases)
     (simp_all add: detail_of_def split: option.splits)

lemma details_names:
  "first_escape model kwargs sel = None \<Longrightarrow>
     map detail_checker (concat (map (\<lambda>(fn, n, f). detail_of fn n (f model kwargs)) sel)) =
       names_of sel"
proof (induction sel)
  case Nil
  show ?case by (simp add: names_of_def)
next
  case (Cons x sel)
  obtain fn n f where x: "x = (fn, n, f)" by (cases x)
  have e: "escape_of (f model kwargs) = None" and
       rest: "first_escape model kwargs sel = None"
    using Cons.prems by (simp_all add: x split: option.splits)
  show ?case
    using Cons.IH [OF rest] detail_of_name [OF e, of fn n]
    by (simp add: x names_of_def)
qed

lemma detail_of_status:
  "escape_of out = None \<Longrightarrow>
     map detail_status (detail_of fn n out) =
       [if valid_output out then ''success'' else ''failed'']"
proof (cases out rule: caught_error.cases)
  case (4 es)
  show ?thesis
    using first_invalid_None [of 0 es]
    by (cases "first_invalid 0 es") (simp_all add: 4 detail_of_def)
qed (simp_all add: detail_of_def)

lemma details_status:
  "first_escape model kwargs sel = None \<Longrightarrow>
     map detail_status (concat (map (\<lambda>(fn, n, f). detail_of fn n (f model kwargs)) sel)) =
       map (\<lambda>(fn, n, f). if valid_output (f model kwargs) then ''success'' else ''failed'') sel"
proof (induction sel)
  case Nil
  show ?case by simp
next
  case (Cons x sel)
  obtain fn n f where x: "x = (fn, n, f)" by (cases x)
  have e: "escape_of (f model kwargs) = None" and
       rest: "first_escape model kwargs sel = None"
    using Cons.prems by (simp_all add: x split: option.splits)
  show ?case
    using Cons.IH [OF rest] detail_of_status [OF e, of fn n]
    by (simp add: x)
qed

text \<open>What a report holds, in terms of the selected checkers.\<close>

lemma run_report:
  assumes "run lw model flt kwargs s = (Inr rep, s')"
  shows "results rep = map snd (admit_all model kwargs (selected lw flt (checkers s)) [])"
    and "total_results (summary rep) =
           length (concat (map (\<lambda>(fn, n, f). admitted fn n (f model kwargs))
                            (selected lw flt (checkers s))))"
    and "total_checkers (summary rep) = length (selected lw flt (checkers s))"
    and "successful_checkers (summary rep) =
           length (filter (\<lambda>(fn, n, f). valid_output (f model kwargs))
                     (selected lw flt (checkers s)))"
    and "failed_checkers (summary rep) =
           length (filter (\<lambda>(fn, n, f). caught_error (f model kwargs) \<noteq> None)
                     (selected lw flt (checkers s)))"
    and "checker_details (summary rep) =
           concat (map (\<lambda>(fn, n, f). detail_of fn n (f model kwargs))
                     (selected lw flt (checkers s)))"
    and "map detail_checker (checker_details (summary rep)) =
           names_of (selected lw flt (checkers s))"
    and "\<exists>new. log rep = execution_log s @ new \<and>
               running_names new = names_of (selected lw flt (checkers s))"
    and "execution_log s' = log rep"
    and "checkers s' = checkers s"
proof -
  let ?sel = "selected lw flt (checkers s)"
  let ?st = "final_locals lw model flt kwargs s"
  have pre: "checkers s \<noteq> []" "isinstance_ifc model" "first_escape model kwargs ?sel = None"
    using run_Inr_preconditions [OF assms] by simp_all
  have all: "called model kwargs ?sel = ?sel"
    using pre(3) by (rule called_all)
  from run_final [OF pre] assms
  have rep: "rep = \<lparr>results = map snd (all_results ?st),
                 summary = \<lparr>total_checkers = stats_total ?st,
                            successful_checkers = stats_successful ?st,
                            failed_checkers = stats_failed ?st,
                            total_results = length (all_results ?st),
                            checker_details = stats_details ?st\<rparr>,
                 log = trace ?st @ closing_lines ?st\<rparr>"
    and s': "s' = s\<lparr>execution_log := trace ?st @ closing_lines ?st\<rparr>"
    by simp_all
  show "results rep = map snd (admit_all model kwargs ?sel [])"
    by (simp add: rep final_locals_results all)
  show "total_results (summary rep) =
          length (concat (map (\<lambda>(fn, n, f). admitted fn n (f model kwargs)) ?sel))"
    using admit_all_length [of model kwargs ?sel "[]"]
    by (simp add: rep final_locals_results all)
  show "total_checkers (summary rep) = length ?sel"
    by (simp add: rep final_locals_total all)
  show "successful_checkers (summary rep) =
          length (filter (\<lambda>(fn, n, f). valid_output (f model kwargs)) ?sel)"
    by (simp add: rep final_locals_successful all)
  show "failed_checkers (summary rep) =
          length (filter (\<lambda>(fn, n, f). caught_error (f model kwargs) \<noteq> None) ?sel)"
    by (simp add: rep final_locals_failed all)
  show d: "checker_details (summary rep) =
          concat (map (\<lambda>(fn, n, f). detail_of fn n (f model kwargs)) ?sel)"
    by (simp add: rep final_locals_details all)
  show "map detail_checker (checker_details (summary rep)) = names_of ?sel"
    unfolding d using pre(3) by (rule details_names)
  obtain new where new: "trace ?st = execution_log s @ [LogBannerOpen, LogStart, LogBannerClose] @ new"
      and names: "running_names new = names_of (called model kwargs ?sel)"
    using final_locals_trace [of lw model flt kwargs s] by blast
  let ?new = "[LogBannerOpen, LogStart, LogBannerClose] @ new @ closing_lines ?st"
  have "log rep = execution_log s @ ?new"
    by (simp add: rep new)
  moreover have "running_names ?new = names_of ?sel"
    by (simp add: running_names_append names all closing_lines_def)
  ultimately show "\<exists>new. log rep = execution_log s @ new \<and> running_names new = names_of ?sel"
    by blast
  show "execution_log s' = log rep"
    by (simp add: rep s')
  show "checkers s' = checkers s"
    by (simp add: s')
qed

text \<open>
  C6. With a non-empty filter string, \<^verbatim>\<open>run()\<close>, when it returns a report, has called
  exactly the checker functions of the modules whose file name contains the filter as a
  substring when both are put in lower case by \<^verbatim>\<open>str.lower\<close>, each once and in registry
  order: the \<^verbatim>\<open>Running:\<close> lines that the call appends to the trace name these
  (module, function) pairs; the per-checker details of the report are, pair by pair,
  the detail that the outcome of the pair's call gives (success with the length of the
  returned list, or failure with the error); the results are what the calls of these
  pairs, one after the other, put into \<^verbatim>\<open>all_results\<close>, which for checkers that
  return fresh dicts is the concatenation of what each call admits; and
  \<^verbatim>\<open>summary.total_checkers\<close> is the number of these pairs, split into the successful and
  the failed ones. A function of a module that does not match is neither called nor
  counted.
\<close>

theorem run_filter:
  assumes "flt \<noteq> []" and "run lw model (Some flt) kwargs s = (Inr rep, s')"
  shows "(\<exists>new. log rep = execution_log s @ new \<and>
                running_names new = names_of (matching lw flt (checkers s))) \<and>
         checker_details (summary rep) =
           concat (map (\<lambda>(fn, n, f). detail_of fn n (f model kwargs))
                     (matching lw flt (checkers s))) \<and>
         map detail_checker (checker_details (summary rep)) =
           names_of (matching lw flt (checkers s)) \<and>
         map detail_status (checker_details (summary rep)) =
           map (\<lambda>(fn, n, f). if valid_output (f model kwargs) then ''success'' else ''failed'')
             (matching lw flt (checkers s)) \<and>
         results rep = map snd (admit_all model kwargs (matching lw flt (checkers s)) []) \<and>
         (fresh_dicts model kwargs (matching lw flt (checkers s)) \<longrightarrow>
            results rep =
              concat (map (\<lambda>(fn, n, f). admitted fn n (f model kwargs))
                        (matching lw flt (checkers s)))) \<and>
         total_checkers (summary rep) = length (matching lw flt (checkers s)) \<and>
         successful_checkers (summary rep) =
           length (filter (\<lambda>(fn, n, f). valid_output (f model kwargs))
                     (matching lw flt (checkers s))) \<and>
         failed_checkers (summary rep) =
           length (filter (\<lambda>(fn, n, f). caught_error (f model kwargs) \<noteq> None)
                     (matching lw flt (checkers s))) \<and>
         (\<forall>fn n f. ((fn, n, f) \<in> set (matching lw flt (checkers s))) =
                    (\<exists>fs. (fn, fs) \<in> set (checkers s) \<and> (n, f) \<in> set fs \<and>
                          sublist (lw flt) (lw fn)))"
proof -
  note r = run_report [OF assms(2), unfolded selected_matching [OF assms(1)]]
  have none: "first_escape model kwargs (matching lw flt (checkers s)) = None"
    using run_Inr_preconditions [OF assms(2)] selected_matching [OF assms(1), of lw "checkers s"]
    by simp
  have fresh: "results rep =
      concat (map (\<lambda>(fn, n, f). admitted fn n (f model kwargs)) (matching lw flt (checkers s)))"
    if "fresh_dicts model kwargs (matching lw flt (checkers s))"
    unfolding r(1) using that by (rule admit_all_fresh_results)
  show ?thesis
  proof (intro conjI)
    show "\<exists>new. log rep = execution_log s @ new \<and>
            running_names new = names_of (matching lw flt (checkers s))"
      by (rule r(8))
    show "checker_details (summary rep) =
            concat (map (\<lambda>(fn, n, f). detail_of fn n (f model kwargs))
                      (matching lw flt (checkers s)))"
      by (rule r(6))
    show "map detail_checker (checker_details (summary rep)) =
            names_of (matching lw flt (checkers s))"
      by (rule r(7))
    show "map detail_status (checker_details (summary rep)) =
            map (\<lambda>(fn, n, f). if valid_output (f model kwargs) then ''success'' else ''failed'')
              (matching lw flt (checkers s))"
      unfolding r(6) using none by (rule details_status)
    show "results rep = map snd (admit_all model kwargs (matching lw flt (checkers s)) [])"
      by (rule r(1))
    show "fresh_dicts model kwargs (matching lw flt (checkers s)) \<longrightarrow>
            results rep =
              concat (map (\<lambda>(fn, n, f). admitted fn n (f model kwargs))
                        (matching lw flt (checkers s)))"
      using fresh by blast
    show "total_checkers (summary rep) = length (matching lw flt (checkers s))"
      by (rule r(3))
    show "successful_checkers (summary rep) =
            length (filter (\<lambda>(fn, n, f). valid_output (f model kwargs))
                      (matching lw flt (checkers s)))"
      by (rule r(4))
    show "failed_checkers (summary rep) =
            length (filter (\<lambda>(fn, n, f). caught_error (f model kwargs) \<noteq> None)
                      (matching lw flt (checkers s)))"
      by (rule r(5))
    show "\<forall>fn n f. ((fn, n, f) \<in> set (matching lw flt (checkers s))) =
                    (\<exists>fs. (fn, fs) \<in> set (checkers s) \<and> (n, f) \<in> set fs \<and>
                          sublist (lw flt) (lw fn))"
      by (simp add: matching_iff)
  qed
qed

lemma matching_walls_doors:
  "matching ascii_lower ''DOORS'' (checkers (snd (discover (Some files_walls_doors) fresh))) =
     [(''checker_doors.py'', ''check_door_accessibility'', check_ok 11)]"
  unfolding discover_files_walls_doors snd_conv
  by (simp add: matching_def ascii_lower_def lower_char_def sublist_Cons_right)

lemma admitted_check_ok:
  "admitted fn n (check_ok oid model kwargs) = [add_metadata fn n (door_result ''pass'')]"
  by (simp add: admitted_def admit_def check_ok_def dom_door_result Let_def assign_object_def)

lemma detail_of_check_ok:
  "detail_of fn n (check_ok oid model kwargs) = [DetailSuccess (full_name fn n) 1]"
  by (simp add: detail_of_def check_ok_def dom_door_result)

theorem run_filter_witness:
  "''DOORS'' \<noteq> [] \<and>
   (\<exists>rep s'. run ascii_lower (IfcFile ()) (Some ''DOORS'') ()
                 (snd (discover (Some files_walls_doors) fresh)) = (Inr rep, s') \<and>
      checker_details (summary rep) =
        [DetailSuccess ''checker_doors.py::check_door_accessibility'' 1] \<and>
      results rep =
        [add_metadata ''checker_doors.py'' ''check_door_accessibility'' (door_result ''pass'')] \<and>
      total_checkers (summary rep) = 1 \<and>
      successful_checkers (summary rep) = 1 \<and>
      failed_checkers (summary rep) = 0)"
proof -
  let ?s = "snd (discover (Some files_walls_doors) fresh)"
  have ne: "''DOORS'' \<noteq> []" by simp
  have sel: "selected ascii_lower (Some ''DOORS'') (checkers ?s) =
      [(''checker_doors.py'', ''check_door_accessibility'', check_ok 11)]"
    unfolding selected_matching [OF ne] by (rule matching_walls_doors)
  have "checkers ?s \<noteq> []" by (simp add: discover_files_walls_doors)
  moreover have "isinstance_ifc (IfcFile ())" by simp
  moreover have "first_escape (IfcFile ()) ()
      (selected ascii_lower (Some ''DOORS'') (checkers ?s)) = None"
    unfolding sel by (simp add: check_ok_def)
  ultimately obtain rep s' where
      r: "run ascii_lower (IfcFile ()) (Some ''DOORS'') () ?s = (Inr rep, s')"
    using run_final [where s = ?s and model = "IfcFile ()" and lw = ascii_lower
        and flt = "Some ''DOORS''" and kwargs = "()"]
    by blast
  have f: "fresh_dicts (IfcFile ()) () (matching ascii_lower ''DOORS'' (checkers ?s))"
    unfolding matching_walls_doors
    by (simp add: fresh_dicts_def returned_ids_def check_ok_def)
  note t = run_filter [OF ne r]
  note c2 = t [THEN conjunct2]
  note c5 = c2 [THEN conjunct2, THEN conjunct2, THEN conjunct2, THEN conjunct2]
  note c6 = c5 [THEN conjunct2]
  note c7 = c6 [THEN conjunct2]
  note c8 = c7 [THEN conjunct2]
  have "checker_details (summary rep) =
          [DetailSuccess ''checker_doors.py::check_door_accessibility'' 1]"
    unfolding c2 [THEN conjunct1] matching_walls_doors
    by (simp add: detail_of_check_ok full_name_def)
  moreover have "results rep =
      [add_metadata ''checker_doors.py'' ''check_door_accessibility'' (door_result ''pass'')]"
    unfolding c5 [THEN conjunct1, rule_format, OF f] matching_walls_doors
    by (simp add: admitted_check_ok)
  moreover have "total_checkers (summary rep) = 1"
    unfolding c6 [THEN conjunct1] matching_walls_doors by simp
  moreover have "successful_checkers (summary rep) = 1"
    unfolding c7 [THEN conjunct1] matching_walls_doors
    by (simp add: check_ok_def dom_door_result)
  moreover have "failed_checkers (summary rep) = 0"
    unfolding c8 [THEN conjunct1] matching_walls_doors
    by (simp add: check_ok_def dom_door_result)
  ultimately show ?thesis
    using ne r by blast
qed

section \<open>The trace over the lifetime of an instance\<close>

lemma do_call_log_prefix: "prefix (execution_log s) (execution_log (do_call lw c s))"
  by (cases c) (simp_all add: discover_log_prefix run_log_prefix)

lemma do_calls_log_prefix: "prefix (execution_log s) (execution_log (do_calls lw cs s))"
proof (induction cs arbitrary: s)
  case Nil
  show ?case by (simp add: do_calls_def)
next
  case (Cons c cs)
  have "prefix (execution_log s) (execution_log (do_call lw c s))"
    by (rule do_call_log_prefix)
  also have "prefix \<dots> (execution_log (do_calls lw cs (do_call lw c s)))"
    by (rule Cons.IH)
  finally show ?case by (simp add: do_calls_def)
qed

lemma run_log_is_instance_log:
  "run lw model flt kwargs s = (Inr rep, s') \<Longrightarrow> log rep = execution_log s'"
  using run_report(9) [of lw model flt kwargs s rep s'] by simp

text \<open>
  C10. The trace belongs to the orchestrator instance and is only ever appended to. The
  \<^verbatim>\<open>log\<close> of a report is the whole trace of the instance at the end of that
  \<^verbatim>\<open>run()\<close>: it starts with the trace that was there before the call, so with the lines
  of \<^verbatim>\<open>discover()\<close> and of every earlier \<^verbatim>\<open>run()\<close>. The log of a first report is thus
  a prefix of the log of any later report of the same instance, whatever calls were made
  in between. (The report holds the lines joined by newlines; the model keeps the list
  of lines.)
\<close>

theorem trace_accumulates:
  assumes "run lw model1 flt1 kwargs1 s1 = (Inr rep1, s2)"
    and "run lw model2 flt2 kwargs2 (do_calls lw cs s2) = (Inr rep2, s4)"
  shows "log rep1 = execution_log s2 \<and>
         log rep2 = execution_log s4 \<and>
         prefix (execution_log s1) (log rep1) \<and>
         prefix (log rep1) (execution_log (do_calls lw cs s2)) \<and>
         prefix (log rep1) (log rep2)"
proof -
  have l1: "log rep1 = execution_log s2"
    using assms(1) by (rule run_log_is_instance_log)
  have l2: "log rep2 = execution_log s4"
    using assms(2) by (rule run_log_is_instance_log)
  have p1: "prefix (execution_log s1) (log rep1)"
    using run_log_prefix [of s1 lw model1 flt1 kwargs1] by (simp add: assms(1) l1)
  have p2: "prefix (log rep1) (execution_log (do_calls lw cs s2))"
    unfolding l1 by (rule do_calls_log_prefix)
  have "prefix (execution_log (do_calls lw cs s2)) (log rep2)"
    using run_log_prefix [of "do_calls lw cs s2" lw model2 flt2 kwargs2] by (simp add: assms(2) l2)
  with p2 have p3: "prefix (log rep1) (log rep2)"
    by (rule prefix_order.trans)
  from l1 l2 p1 p2 p3 show ?thesis
    by (intro conjI)
qed

lemma second_run_doors:
  "run ascii_lower (IfcFile ()) None ()
     (do_calls ascii_lower [] (snd (run ascii_lower (IfcFile ()) None () (snd (discover (Some files_doors) fresh))))) =
   (Inr \<lparr>results = [add_metadata ''checker_doors.py'' ''check_door_accessibility''
                        (door_result ''pass'')],
           summary = \<lparr>total_checkers = 1, successful_checkers = 1, failed_checkers = 0,
                      total_results = 1,
                      checker_details =
                        [DetailSuccess ''checker_doors.py::check_door_accessibility'' 1]\<rparr>,
           log = [LogScanning ''tools'', LogFoundFiles 1,
                  LogFoundFunctions ''checker_doors.py'' [''check_door_accessibility''],
                  LogBannerOpen, LogStart, LogBannerClose,
                  LogRunning ''checker_doors.py::check_door_accessibility'', LogResults 1,
                  LogBannerOpen, LogComplete, LogCheckersRun 1 1, LogCollected 1,
                  LogBannerClose,
                  LogBannerOpen, LogStart, LogBannerClose,
                  LogRunning ''checker_doors.py::check_door_accessibility'', LogResults 1,
                  LogBannerOpen, LogComplete, LogCheckersRun 1 1, LogCollected 1,
                  LogBannerClose]\<rparr>,
    \<lparr>tools_dir = ''tools'',
     checkers = [(''checker_doors.py'', [(''check_door_accessibility'', check_ok 11)])],
     loaded_modules = [(''checker_doors.py'', doors_module)],
     execution_log = [LogScanning ''tools'', LogFoundFiles 1,
                  LogFoundFunctions ''checker_doors.py'' [''check_door_accessibility''],
                  LogBannerOpen, LogStart, LogBannerClose,
                  LogRunning ''checker_doors.py::check_door_accessibility'', LogResults 1,
                  LogBannerOpen, LogComplete, LogCheckersRun 1 1, LogCollected 1,
                  LogBannerClose,
                  LogBannerOpen, LogStart, LogBannerClose,
                  LogRunning ''checker_doors.py::check_door_accessibility'', LogResults 1,
                  LogBannerOpen, LogComplete, LogCheckersRun 1 1, LogCollected 1,
                  LogBannerClose]\<rparr>)"
  unfolding run_doors snd_conv do_calls_def fold_simps id_apply
  by (simp add: eval_run check_ok_def)

theorem trace_accumulates_witness:
  "run ascii_lower (IfcFile ()) None () (snd (discover (Some files_doors) fresh)) =
     (Inr (projr (fst (run ascii_lower (IfcFile ()) None () (snd (discover (Some files_doors) fresh))))),
      snd (run ascii_lower (IfcFile ()) None () (snd (discover (Some files_doors) fresh)))) \<and>
   prefix
     (log (projr (fst (run ascii_lower (IfcFile ()) None () (snd (discover (Some files_doors) fresh))))))
     [LogScanning ''tools'', LogFoundFiles 1,
      LogFoundFunctions ''checker_doors.py'' [''check_door_accessibility''],
      LogBannerOpen, LogStart, LogBannerClose,
      LogRunning ''checker_doors.py::check_door_accessibility'', LogResults 1,
      LogBannerOpen, LogComplete, LogCheckersRun 1 1, LogCollected 1,
      LogBannerClose,
      LogBannerOpen, LogStart, LogBannerClose,
      LogRunning ''checker_doors.py::check_door_accessibility'', LogResults 1,
      LogBannerOpen, LogComplete, LogCheckersRun 1 1, LogCollected 1,
      LogBannerClose]"
proof -
  let ?s1 = "snd (discover (Some files_doors) fresh)"
  let ?r1 = "run ascii_lower (IfcFile ()) None () ?s1"
  have h1: "?r1 = (Inr (projr (fst ?r1)), snd ?r1)"
    by (simp add: run_doors)
  have h2: "run ascii_lower (IfcFile ()) None () (do_calls ascii_lower [] (snd ?r1)) =
      (Inr (projr (fst (run ascii_lower (IfcFile ()) None () (do_calls ascii_lower [] (snd ?r1))))),
       snd (run ascii_lower (IfcFile ()) None () (do_calls ascii_lower [] (snd ?r1))))"
    by (simp add: second_run_doors)
  have "prefix (log (projr (fst ?r1)))
      (log (projr (fst (run ascii_lower (IfcFile ()) None () (do_calls ascii_lower [] (snd ?r1))))))"
    by (rule trace_accumulates [OF h1 h2, THEN conjunct2, THEN conjunct2, THEN conjunct2,
          THEN conjunct2])
  then have "prefix (log (projr (fst ?r1)))
     [LogScanning ''tools'', LogFoundFiles 1,
      LogFoundFunctions ''checker_doors.py'' [''check_door_accessibility''],
      LogBannerOpen, LogStart, LogBannerClose,
      LogRunning ''checker_doors.py::check_door_accessibility'', LogResults 1,
      LogBannerOpen, LogComplete, LogCheckersRun 1 1, LogCollected 1,
      LogBannerClose,
      LogBannerOpen, LogStart, LogBannerClose,
      LogRunning ''checker_doors.py::check_door_accessibility'', LogResults 1,
      LogBannerOpen, LogComplete, LogCheckersRun 1 1, LogCollected 1,
      LogBannerClose]"
    by (simp add: second_run_doors)
  with h1 show ?thesis by (rule conjI)
qed

section \<open>More runs on the concrete inputs\<close>

lemma discover_files_windows:
  "discover (Some files_windows) fresh =
     (Inr [(''checker_windows.py'', [''check_window_thermal''])],
      \<lparr>tools_dir = ''tools'',
       checkers = [(''checker_windows.py'', [(''check_window_thermal'', check_extra)])],
       loaded_modules = [(''checker_windows.py'', windows_module)],
       execution_log = [LogScanning ''tools'', LogFoundFiles 1,
         LogFoundFunctions ''checker_windows.py'' [''check_window_thermal'']]\<rparr>)"
  by (simp add: eval_discover files_windows_def windows_module_def)

lemma discover_files_rooms_stairs:
  "discover (Some files_rooms_stairs) fresh =
     (Inr [(''checker_rooms.py'', [''check_room_heights'']),
           (''checker_stairs.py'', [''check_stair_dimensions''])],
      \<lparr>tools_dir = ''tools'',
       checkers = [(''checker_rooms.py'', [(''check_room_heights'', check_partial)]),
                   (''checker_stairs.py'', [(''check_stair_dimensions'', check_raises)])],
       loaded_modules = [(''checker_rooms.py'', rooms_module),
                         (''checker_stairs.py'', stairs_module)],
       execution_log = [LogScanning ''tools'', LogFoundFiles 2,
         LogFoundFunctions ''checker_rooms.py'' [''check_room_heights''],
         LogFoundFunctions ''checker_stairs.py'' [''check_stair_dimensions'']]\<rparr>)"
  by (simp add: eval_discover files_rooms_stairs_def rooms_module_def stairs_module_def)

lemma log_required: "''log'' \<in> required_keys"
  by (simp add: required_keys_def)

lemma missing_log:
  "required_keys - (required_keys - {''log''}) = {''log''}"
  "\<not> required_keys \<subseteq> required_keys - {''log''}"
  using log_required by auto

lemma run_windows:
  "fst (run ascii_lower (IfcFile ()) None () (snd (discover (Some files_windows) fresh))) =
     Inr \<lparr>results = [add_metadata ''checker_windows.py'' ''check_window_thermal''
                        ((door_result ''pass'')(''note'' \<mapsto> PStr ''x''))],
           summary = \<lparr>total_checkers = 1, successful_checkers = 1, failed_checkers = 0,
                      total_results = 1,
                      checker_details =
                        [DetailSuccess ''checker_windows.py::check_window_thermal'' 1]\<rparr>,
           log = [LogScanning ''tools'', LogFoundFiles 1,
                  LogFoundFunctions ''checker_windows.py'' [''check_window_thermal''],
                  LogBannerOpen, LogStart, LogBannerClose,
                  LogRunning ''checker_windows.py::check_window_thermal'', LogResults 1,
                  LogBannerOpen, LogComplete, LogCheckersRun 1 1, LogCollected 1,
                  LogBannerClose]\<rparr>"
  unfolding discover_files_windows snd_conv
  by (simp add: eval_run check_extra_def subset_insertI)

lemma run_rooms_stairs:
  "fst (run ascii_lower (IfcFile ()) None () (snd (discover (Some files_rooms_stairs) fresh))) =
     Inr \<lparr>results = [add_metadata ''checker_rooms.py'' ''check_room_heights''
                        (door_result ''pass'')],
           summary = \<lparr>total_checkers = 2, successful_checkers = 0, failed_checkers = 2,
                      total_results = 1,
                      checker_details =
                        [DetailFailed ''checker_rooms.py::check_room_heights''
                           (ResultMissingKeys 1 {''log''}),
                         DetailFailed ''checker_stairs.py::check_stair_dimensions''
                           (RuleRaised ''boom'')]\<rparr>,
           log = [LogScanning ''tools'', LogFoundFiles 2,
                  LogFoundFunctions ''checker_rooms.py'' [''check_room_heights''],
                  LogFoundFunctions ''checker_stairs.py'' [''check_stair_dimensions''],
                  LogBannerOpen, LogStart, LogBannerClose,
                  LogRunning ''checker_rooms.py::check_room_heights'',
                  LogError (ResultMissingKeys 1 {''log''}),
                  LogRunning ''checker_stairs.py::check_stair_dimensions'',
                  LogError (RuleRaised ''boom''),
                  LogBannerOpen, LogComplete, LogCheckersRun 0 2, LogCollected 1,
                  LogBannerClose]\<rparr>"
  unfolding discover_files_rooms_stairs snd_conv
  by (simp add: eval_run check_partial_def check_raises_def missing_log)

lemma run_after_rediscover:
  "fst (run ascii_lower (IfcFile ()) None ()
          (snd (discover (Some files_walls_doors) (snd (discover (Some files_walls) fresh))))) =
     Inr \<lparr>results = [add_metadata ''checker_walls.py'' ''check_wall_fire_rating''
                        (door_result ''pass''),
                      add_metadata ''checker_doors.py'' ''check_door_accessibility''
                        (door_result ''pass'')],
           summary = \<lparr>total_checkers = 2, successful_checkers = 2, failed_checkers = 0,
                      total_results = 2,
                      checker_details =
                        [DetailSuccess ''checker_walls.py::check_wall_fire_rating'' 1,
                         DetailSuccess ''checker_doors.py::check_door_accessibility'' 1]\<rparr>,
           log = [LogScanning ''tools'', LogFoundFiles 1,
                  LogFoundFunctions ''checker_walls.py'' [''check_wall_fire_rating''],
                  LogScanning ''tools'', LogFoundFiles 2,
                  LogFoundFunctions ''checker_doors.py'' [''check_door_accessibility''],
                  LogFoundFunctions ''checker_walls.py'' [''check_wall_fire_rating''],
                  LogBannerOpen, LogStart, LogBannerClose,
                  LogRunning ''checker_walls.py::check_wall_fire_rating'', LogResults 1,
                  LogRunning ''checker_doors.py::check_door_accessibility'', LogResults 1,
                  LogBannerOpen, LogComplete, LogCheckersRun 2 2, LogCollected 2,
                  LogBannerClose]\<rparr>"
  unfolding rediscover_walls_doors_after_walls snd_conv
  by (simp add: eval_run check_ok_def)

lemma discover_files_shared:
  "discover (Some files_shared) fresh =
     (Inr [(''checker_shared.py'', [''check_first'', ''check_second''])],
      \<lparr>tools_dir = ''tools'',
       checkers = [(''checker_shared.py'', [(''check_first'', check_first),
                                            (''check_second'', check_second)])],
       loaded_modules = [(''checker_shared.py'', shared_module)],
       execution_log = [LogScanning ''tools'', LogFoundFiles 1,
         LogFoundFunctions ''checker_shared.py'' [''check_first'', ''check_second'']]\<rparr>)"
  by (simp add: eval_discover files_shared_def shared_module_def)

lemma dom_add_metadata: "dom (add_metadata fn n d) = dom d \<union> provenance_keys"
  by (auto simp: add_metadata_def provenance_keys_def)

lemma add_metadata_provenance:
  "add_metadata fn n d ''_checker_file'' = Some (PStr fn)"
  "add_metadata fn n d ''_checker_function'' = Some (PStr n)"
  by (simp_all add: add_metadata_def)

lemma add_metadata_again:
  "add_metadata fn n' (add_metadata fn n d) = add_metadata fn n' d"
  by (auto simp: add_metadata_def)

text \<open>
  Two checkers that return the same dict object: both succeed, and the object, which is
  in the results twice, carries the names of the checker that was called last.
\<close>

lemma run_shared:
  "fst (run ascii_lower (IfcFile ()) None () (snd (discover (Some files_shared) fresh))) =
     Inr \<lparr>results = [add_metadata ''checker_shared.py'' ''check_second'' (door_result ''pass''),
                      add_metadata ''checker_shared.py'' ''check_second'' (door_result ''pass'')],
           summary = \<lparr>total_checkers = 2, successful_checkers = 2, failed_checkers = 0,
                      total_results = 2,
                      checker_details =
                        [DetailSuccess ''checker_shared.py::check_first'' 1,
                         DetailSuccess ''checker_shared.py::check_second'' 1]\<rparr>,
           log = [LogScanning ''tools'', LogFoundFiles 1,
                  LogFoundFunctions ''checker_shared.py'' [''check_first'', ''check_second''],
                  LogBannerOpen, LogStart, LogBannerClose,
                  LogRunning ''checker_shared.py::check_first'', LogResults 1,
                  LogRunning ''checker_shared.py::check_second'', LogResults 1,
                  LogBannerOpen, LogComplete, LogCheckersRun 2 2, LogCollected 2,
                  LogBannerClose]\<rparr>"
  unfolding discover_files_shared snd_conv
  by (simp add: eval_run check_first_def check_second_def dom_add_metadata add_metadata_again)

section \<open>The records of a report\<close>

lemma admitted_tagged:
  assumes "distinct (returned_ids (f model kwargs))"
  shows "prefix (admitted fn n (f model kwargs))
           (map (add_metadata fn n) (emitted (f model kwargs))) \<and>
         (valid_output (f model kwargs) \<longrightarrow>
            admitted fn n (f model kwargs) = map (add_metadata fn n) (emitted (f model kwargs)))"
  using admitted_prefix [OF assms] admitted_valid [OF _ assms] by blast

lemma fresh_dicts_each:
  "fresh_dicts model kwargs sel \<Longrightarrow> (fn, n, f) \<in> set sel \<Longrightarrow>
     distinct (returned_ids (f model kwargs))"
proof (induction sel)
  case Nil
  then show ?case by simp
next
  case (Cons x sel)
  obtain fn' n' f' where x: "x = (fn', n', f')" by (cases x)
  have d: "distinct (returned_ids (f' model kwargs))" and rest: "fresh_dicts model kwargs sel"
    using Cons.prems(1) by (simp_all add: fresh_dicts_def x)
  show ?case
  proof (cases "(fn, n, f) = x")
    case True
    with d x show ?thesis by simp
  next
    case False
    with Cons.prems(2) have "(fn, n, f) \<in> set sel" by simp
    with rest show ?thesis by (rule Cons.IH)
  qed
qed

text \<open>
  C4 (amended). Every record in the \<^verbatim>\<open>results\<close> of a report is a dict that a selected
  checker function returned, that had the nine required keys when it was validated, and
  to which the engine then assigned \<^verbatim>\<open>_checker_file\<close> and \<^verbatim>\<open>_checker_function\<close>, the
  file name and function name of that checker. Its key set therefore contains the nine
  base keys and the two provenance keys; it is the dict's own key set plus the two
  provenance keys, so it is exactly these eleven only when the checker put no other key
  into the dict: the validation looks for missing keys, not for additional ones.

  The engine tags the dict object that the checker returned, and appends that object.
  When the checkers return fresh dicts (no dict object is returned twice in the run),
  the results are, call after call in the order of the calls, the dicts that the call
  returned up to the first element that the validation rejects, each with the names of
  that call; the objects of \<^verbatim>\<open>all_results\<close> are then pairwise different, so that each
  was tagged in one iteration only, the one that appended it after validating it.
  Without this proviso a dict object that is returned again is tagged again, and carries
  the names of the last call that returned it at every position where it is in the
  results.
\<close>

theorem result_record_keys:
  assumes "run lw model flt kwargs s = (Inr rep, s')"
  shows "(\<forall>r \<in> set (results rep).
            required_keys \<union> provenance_keys \<subseteq> dom r \<and>
            (\<exists>fn n f d.
               (fn, n, f) \<in> set (selected lw flt (checkers s)) \<and>
               d \<in> set (emitted (f model kwargs)) \<and> required_keys \<subseteq> dom d \<and>
               r = add_metadata fn n d \<and>
               dom r = dom d \<union> provenance_keys \<and>
               r ''_checker_file'' = Some (PStr fn) \<and>
               r ''_checker_function'' = Some (PStr n) \<and>
               (dom r = required_keys \<union> provenance_keys) =
                 (dom d \<subseteq> required_keys \<union> provenance_keys))) \<and>
         (\<forall>fn n f. ((fn, n, f) \<in> set (selected lw flt (checkers s))) =
                    (\<exists>fs. (fn, fs) \<in> set (checkers s) \<and> (n, f) \<in> set fs \<and>
                          \<not> skipped lw flt fn)) \<and>
         results rep = map snd (all_results (final_locals lw model flt kwargs s)) \<and>
         all_results (final_locals lw model flt kwargs s) =
           admit_all model kwargs (selected lw flt (checkers s)) [] \<and>
         (fresh_dicts model kwargs (selected lw flt (checkers s)) \<longrightarrow>
            results rep =
              concat (map (\<lambda>(fn, n, f). admitted fn n (f model kwargs))
                        (selected lw flt (checkers s))) \<and>
            (\<forall>(fn, n, f) \<in> set (selected lw flt (checkers s)).
               prefix (admitted fn n (f model kwargs))
                 (map (add_metadata fn n) (emitted (f model kwargs))) \<and>
               (valid_output (f model kwargs) \<longrightarrow>
                  admitted fn n (f model kwargs) =
                    map (add_metadata fn n) (emitted (f model kwargs)))) \<and>
            distinct (map fst (all_results (final_locals lw model flt kwargs s))))"
proof -
  let ?sel = "selected lw flt (checkers s)"
  note r = run_report [OF assms]
  have pre: "first_escape model kwargs ?sel = None"
    using run_Inr_preconditions [OF assms] by simp
  have fl: "all_results (final_locals lw model flt kwargs s) = admit_all model kwargs ?sel []"
    by (simp add: final_locals_results called_all [OF pre])
  have members: "required_keys \<union> provenance_keys \<subseteq> dom r \<and>
      (\<exists>fn n f d.
         (fn, n, f) \<in> set ?sel \<and>
         d \<in> set (emitted (f model kwargs)) \<and> required_keys \<subseteq> dom d \<and>
         r = add_metadata fn n d \<and>
         dom r = dom d \<union> provenance_keys \<and>
         r ''_checker_file'' = Some (PStr fn) \<and>
         r ''_checker_function'' = Some (PStr n) \<and>
         (dom r = required_keys \<union> provenance_keys) =
           (dom d \<subseteq> required_keys \<union> provenance_keys))"
    if "r \<in> set (results rep)" for r
  proof -
    from that have "r \<in> snd ` set (admit_all model kwargs ?sel [])"
      unfolding r(1) by simp
    then have "r \<in> snd ` set ([] :: (nat \<times> result_dict) list) \<or>
       (\<exists>fn n f d. (fn, n, f) \<in> set ?sel \<and> d \<in> set (emitted (f model kwargs)) \<and>
          required_keys \<subseteq> dom d \<and> r = add_metadata fn n d)"
      by (rule admit_all_members)
    then obtain fn n f d where x: "(fn, n, f) \<in> set ?sel"
        and d: "d \<in> set (emitted (f model kwargs))" "required_keys \<subseteq> dom d"
          "r = add_metadata fn n d"
      by auto
    have dom: "dom r = dom d \<union> provenance_keys"
      by (simp add: d(3) dom_add_metadata)
    have sub: "required_keys \<union> provenance_keys \<subseteq> dom r"
      using d(2) dom by auto
    have exact: "(dom r = required_keys \<union> provenance_keys) =
        (dom d \<subseteq> required_keys \<union> provenance_keys)"
      using d(2) dom by auto
    have prov: "r ''_checker_file'' = Some (PStr fn)" "r ''_checker_function'' = Some (PStr n)"
      by (simp_all add: d(3) add_metadata_provenance)
    from x d dom prov exact have "\<exists>fn n f d.
         (fn, n, f) \<in> set ?sel \<and>
         d \<in> set (emitted (f model kwargs)) \<and> required_keys \<subseteq> dom d \<and>
         r = add_metadata fn n d \<and>
         dom r = dom d \<union> provenance_keys \<and>
         r ''_checker_file'' = Some (PStr fn) \<and>
         r ''_checker_function'' = Some (PStr n) \<and>
         (dom r = required_keys \<union> provenance_keys) =
           (dom d \<subseteq> required_keys \<union> provenance_keys)"
      by (intro exI conjI)
    with sub show ?thesis by (rule conjI)
  qed
  have fresh: "results rep =
        concat (map (\<lambda>(fn, n, f). admitted fn n (f model kwargs)) ?sel) \<and>
      (\<forall>(fn, n, f) \<in> set ?sel.
         prefix (admitted fn n (f model kwargs))
           (map (add_metadata fn n) (emitted (f model kwargs))) \<and>
         (valid_output (f model kwargs) \<longrightarrow>
            admitted fn n (f model kwargs) =
              map (add_metadata fn n) (emitted (f model kwargs)))) \<and>
      distinct (map fst (all_results (final_locals lw model flt kwargs s)))"
    if f: "fresh_dicts model kwargs ?sel"
  proof (intro conjI)
    show "results rep = concat (map (\<lambda>(fn, n, f). admitted fn n (f model kwargs)) ?sel)"
      unfolding r(1) using f by (rule admit_all_fresh_results)
    show "\<forall>(fn, n, f) \<in> set ?sel.
         prefix (admitted fn n (f model kwargs))
           (map (add_metadata fn n) (emitted (f model kwargs))) \<and>
         (valid_output (f model kwargs) \<longrightarrow>
            admitted fn n (f model kwargs) =
              map (add_metadata fn n) (emitted (f model kwargs)))"
    proof (intro ballI)
      fix x
      assume x: "x \<in> set ?sel"
      obtain fn n g where xe: "x = (fn, n, g)" by (cases x)
      have "distinct (returned_ids (g model kwargs))"
        using f x [unfolded xe] by (rule fresh_dicts_each)
      then show "case x of (fn, n, f) \<Rightarrow>
         prefix (admitted fn n (f model kwargs))
           (map (add_metadata fn n) (emitted (f model kwargs))) \<and>
         (valid_output (f model kwargs) \<longrightarrow>
            admitted fn n (f model kwargs) =
              map (add_metadata fn n) (emitted (f model kwargs)))"
        unfolding xe prod.case by (rule admitted_tagged)
    qed
    show "distinct (map fst (all_results (final_locals lw model flt kwargs s)))"
      unfolding fl using f by (rule admit_all_fresh_distinct)
  qed
  show ?thesis
  proof (intro conjI)
    show "\<forall>r \<in> set (results rep).
            required_keys \<union> provenance_keys \<subseteq> dom r \<and>
            (\<exists>fn n f d.
               (fn, n, f) \<in> set ?sel \<and>
               d \<in> set (emitted (f model kwargs)) \<and> required_keys \<subseteq> dom d \<and>
               r = add_metadata fn n d \<and>
               dom r = dom d \<union> provenance_keys \<and>
               r ''_checker_file'' = Some (PStr fn) \<and>
               r ''_checker_function'' = Some (PStr n) \<and>
               (dom r = required_keys \<union> provenance_keys) =
                 (dom d \<subseteq> required_keys \<union> provenance_keys))"
      using members by blast
    show "\<forall>fn n f. ((fn, n, f) \<in> set ?sel) =
                    (\<exists>fs. (fn, fs) \<in> set (checkers s) \<and> (n, f) \<in> set fs \<and>
                          \<not> skipped lw flt fn)"
      by (simp add: selected_iff)
    show "results rep = map snd (all_results (final_locals lw model flt kwargs s))"
      by (simp add: r(1) fl)
    show "all_results (final_locals lw model flt kwargs s) = admit_all model kwargs ?sel []"
      by (rule fl)
    show "fresh_dicts model kwargs ?sel \<longrightarrow>
            results rep =
              concat (map (\<lambda>(fn, n, f). admitted fn n (f model kwargs)) ?sel) \<and>
            (\<forall>(fn, n, f) \<in> set ?sel.
               prefix (admitted fn n (f model kwargs))
                 (map (add_metadata fn n) (emitted (f model kwargs))) \<and>
               (valid_output (f model kwargs) \<longrightarrow>
                  admitted fn n (f model kwargs) =
                    map (add_metadata fn n) (emitted (f model kwargs)))) \<and>
            distinct (map fst (all_results (final_locals lw model flt kwargs s)))"
      using fresh by blast
  qed
qed

theorem result_record_keys_witness:
  "run ascii_lower (IfcFile ()) None () (snd (discover (Some files_doors) fresh)) =
     (Inr (projr (fst (run ascii_lower (IfcFile ()) None ()
                         (snd (discover (Some files_doors) fresh))))),
      snd (run ascii_lower (IfcFile ()) None () (snd (discover (Some files_doors) fresh)))) \<and>
   add_metadata ''checker_doors.py'' ''check_door_accessibility'' (door_result ''pass'')
     \<in> set (results (projr (fst (run ascii_lower (IfcFile ()) None ()
                (snd (discover (Some files_doors) fresh)))))) \<and>
   required_keys \<union> provenance_keys \<subseteq>
     dom (add_metadata ''checker_doors.py'' ''check_door_accessibility'' (door_result ''pass'')) \<and>
   fresh_dicts (IfcFile ()) ()
     (selected ascii_lower None (checkers (snd (discover (Some files_doors) fresh)))) \<and>
   results (projr (fst (run ascii_lower (IfcFile ()) None ()
                (snd (discover (Some files_doors) fresh))))) =
     admitted ''checker_doors.py'' ''check_door_accessibility'' (check_ok 11 (IfcFile ()) ())"
proof -
  let ?s = "snd (discover (Some files_doors) fresh)"
  let ?run = "run ascii_lower (IfcFile ()) None () ?s"
  let ?r = "add_metadata ''checker_doors.py'' ''check_door_accessibility'' (door_result ''pass'')"
  have h1: "?run = (Inr (projr (fst ?run)), snd ?run)"
    by (simp add: run_doors)
  have h2: "?r \<in> set (results (projr (fst ?run)))"
    by (simp add: run_doors)
  have h3: "fresh_dicts (IfcFile ()) () (selected ascii_lower None (checkers ?s))"
    unfolding selected_doors by (simp add: fresh_dicts_def returned_ids_def check_ok_def)
  note t = result_record_keys [OF h1]
  have "required_keys \<union> provenance_keys \<subseteq> dom ?r"
    using t [THEN conjunct1, rule_format, OF h2] by (rule conjunct1)
  moreover have "results (projr (fst ?run)) =
      concat (map (\<lambda>(fn, n, f). admitted fn n (f (IfcFile ()) ()))
                (selected ascii_lower None (checkers ?s)))"
    using t [THEN conjunct2, THEN conjunct2, THEN conjunct2, THEN conjunct2, rule_format, OF h3]
    by (rule conjunct1)
  then have "results (projr (fst ?run)) =
      admitted ''checker_doors.py'' ''check_door_accessibility'' (check_ok 11 (IfcFile ()) ())"
    unfolding selected_doors by simp
  ultimately show ?thesis
    using h1 h2 h3 by (intro conjI)
qed

text \<open>
  A checker whose dict has the nine keys and a tenth, \<^verbatim>\<open>note\<close>, succeeds; its record in
  the results has twelve keys. And when two checkers return the same dict object, the
  record at the first position of the results, which the call of \<^verbatim>\<open>check_first\<close> put
  there, names \<^verbatim>\<open>check_second\<close>: the object was tagged twice.
\<close>

theorem result_record_extra_key:
  "results (projr (fst (run ascii_lower (IfcFile ()) None ()
       (snd (discover (Some files_windows) fresh))))) =
     [add_metadata ''checker_windows.py'' ''check_window_thermal''
        ((door_result ''pass'')(''note'' \<mapsto> PStr ''x''))] \<and>
   ''note'' \<in> dom (add_metadata ''checker_windows.py'' ''check_window_thermal''
        ((door_result ''pass'')(''note'' \<mapsto> PStr ''x''))) \<and>
   ''note'' \<notin> required_keys \<union> provenance_keys \<and>
   dom (add_metadata ''checker_windows.py'' ''check_window_thermal''
        ((door_result ''pass'')(''note'' \<mapsto> PStr ''x''))) \<noteq> required_keys \<union> provenance_keys \<and>
   map fst (selected ascii_lower None (checkers (snd (discover (Some files_shared) fresh)))) =
     [''checker_shared.py'', ''checker_shared.py''] \<and>
   map (fst \<circ> snd) (selected ascii_lower None (checkers (snd (discover (Some files_shared) fresh)))) =
     [''check_first'', ''check_second''] \<and>
   results (projr (fst (run ascii_lower (IfcFile ()) None ()
       (snd (discover (Some files_shared) fresh))))) =
     [add_metadata ''checker_shared.py'' ''check_second'' (door_result ''pass''),
      add_metadata ''checker_shared.py'' ''check_second'' (door_result ''pass'')] \<and>
   add_metadata ''checker_shared.py'' ''check_second'' (door_result ''pass'')
     ''_checker_function'' = Some (PStr ''check_second'')"
proof -
  let ?r = "add_metadata ''checker_windows.py'' ''check_window_thermal''
        ((door_result ''pass'')(''note'' \<mapsto> PStr ''x''))"
  have a: "results (projr (fst (run ascii_lower (IfcFile ()) None ()
      (snd (discover (Some files_windows) fresh))))) = [?r]"
    by (simp add: run_windows)
  have b: "''note'' \<in> dom ?r"
    by (simp add: dom_add_metadata)
  have c: "''note'' \<notin> required_keys \<union> provenance_keys"
    by (simp add: required_keys_def provenance_keys_def)
  from b c have d: "dom ?r \<noteq> required_keys \<union> provenance_keys" by blast
  have e: "map fst (selected ascii_lower None (checkers (snd (discover (Some files_shared) fresh)))) =
      [''checker_shared.py'', ''checker_shared.py'']"
    by (simp add: discover_files_shared selected_def skipped_def)
  have f: "map (fst \<circ> snd)
      (selected ascii_lower None (checkers (snd (discover (Some files_shared) fresh)))) =
      [''check_first'', ''check_second'']"
    by (simp add: discover_files_shared selected_def skipped_def)
  have g: "results (projr (fst (run ascii_lower (IfcFile ()) None ()
       (snd (discover (Some files_shared) fresh))))) =
     [add_metadata ''checker_shared.py'' ''check_second'' (door_result ''pass''),
      add_metadata ''checker_shared.py'' ''check_second'' (door_result ''pass'')]"
    by (simp add: run_shared)
  have h: "add_metadata ''checker_shared.py'' ''check_second'' (door_result ''pass'')
     ''_checker_function'' = Some (PStr ''check_second'')"
    by (rule add_metadata_provenance(2))
  from a b c d e f g h show ?thesis by (intro conjI)
qed

text \<open>
  C1, at a failing input. \<^verbatim>\<open>checker_rooms.py\<close> holds a checker that returns two dicts,
  the first complete, the second without the key \<^verbatim>\<open>log\<close>; \<^verbatim>\<open>checker_stairs.py\<close> holds
  one that raises. Both are counted as failed, each with a \<^verbatim>\<open>failed\<close> detail and its
  error, and the second is run after the first has failed. But the first dict of the
  failed rooms checker, tagged, is in the \<^verbatim>\<open>results\<close> of the report and counted in
  \<^verbatim>\<open>total_results\<close>: the loop appends each dict as soon as it has validated it, and
  the exception for a later dict does not take the earlier ones back.
\<close>

theorem failed_checker_partial_output_kept:
  "\<not> valid_output (check_partial (IfcFile ()) ()) \<and>
   results (projr (fst (run ascii_lower (IfcFile ()) None ()
       (snd (discover (Some files_rooms_stairs) fresh))))) =
     [add_metadata ''checker_rooms.py'' ''check_room_heights'' (door_result ''pass'')] \<and>
   checker_details (summary (projr (fst (run ascii_lower (IfcFile ()) None ()
       (snd (discover (Some files_rooms_stairs) fresh)))))) =
     [DetailFailed ''checker_rooms.py::check_room_heights'' (ResultMissingKeys 1 {''log''}),
      DetailFailed ''checker_stairs.py::check_stair_dimensions'' (RuleRaised ''boom'')] \<and>
   failed_checkers (summary (projr (fst (run ascii_lower (IfcFile ()) None ()
       (snd (discover (Some files_rooms_stairs) fresh)))))) = 2 \<and>
   total_results (summary (projr (fst (run ascii_lower (IfcFile ()) None ()
       (snd (discover (Some files_rooms_stairs) fresh)))))) = 1"
proof -
  have "\<not> valid_output (check_partial (IfcFile ()) ())"
    using log_required by (simp add: check_partial_def dom_door_result) blast
  then show ?thesis
    by (simp add: run_rooms_stairs)
qed

section \<open>The order of the registry and of the results\<close>

lemma sorted_checker_files: "sorted (map fst (checker_files entries))"
  by (simp add: checker_files_def)

lemma check_functions_names:
  "set (map fst (check_functions ms)) \<subseteq> set (map fst ms)"
  by (induction ms rule: check_functions.induct) auto

lemma sorted_check_functions:
  "sorted (map fst ms) \<Longrightarrow> sorted (map fst (check_functions ms))"
proof (induction ms)
  case Nil
  show ?case by simp
next
  case (Cons x ms)
  obtain name mem where x: "x = (name, mem)" by (cases x)
  from Cons.prems have tail: "sorted (map fst ms)" and le: "\<forall>y\<in>set (map fst ms). name \<le> y"
    by (simp_all add: x)
  from tail have rest: "sorted (map fst (check_functions ms))"
    by (rule Cons.IH)
  from le check_functions_names [of ms]
  have le': "\<forall>y\<in>set (map fst (check_functions ms)). name \<le> y"
    by blast
  show ?case
  proof (cases mem)
    case (Callable f)
    with rest le' show ?thesis by (simp add: x)
  next
    case NotCallable
    with rest show ?thesis by (simp add: x)
  qed
qed

lemma rule_modules_Cons:
  "rule_modules (x # fs) = rule_modules [x] @ rule_modules fs"
  by (simp add: rule_modules_def)

lemma rule_modules_single_names:
  "set (map fst (rule_modules [x])) \<subseteq> {fst x}"
  by (cases x) (auto simp: rule_modules_def split: load_result.splits if_splits)

lemma rule_modules_names:
  "set (map fst (rule_modules fs)) \<subseteq> set (map fst fs)"
proof (induction fs)
  case Nil
  show ?case by (simp add: rule_modules_Nil)
next
  case (Cons x fs)
  have "set (map fst (rule_modules (x # fs))) =
      set (map fst (rule_modules [x])) \<union> set (map fst (rule_modules fs))"
    by (subst rule_modules_Cons) simp
  with Cons.IH rule_modules_single_names [of x] show ?case by auto
qed

lemma sorted_rule_modules:
  "sorted (map fst fs) \<Longrightarrow> sorted (map fst (rule_modules fs))"
proof (induction fs)
  case Nil
  show ?case by (simp add: rule_modules_Nil)
next
  case (Cons x fs)
  from Cons have rest: "sorted (map fst (rule_modules fs))" by simp
  have le: "\<forall>a\<in>set (map fst (rule_modules [x])). \<forall>b\<in>set (map fst (rule_modules fs)). a \<le> b"
  proof (intro ballI)
    fix a b
    assume "a \<in> set (map fst (rule_modules [x]))" and "b \<in> set (map fst (rule_modules fs))"
    then have "a = fst x" and "b \<in> set (map fst fs)"
      using rule_modules_single_names [of x] rule_modules_names [of fs] by auto
    with Cons.prems show "a \<le> b" by auto
  qed
  have single: "sorted (map fst (rule_modules [x]))"
    by (cases x) (auto simp: rule_modules_def split: load_result.splits)
  have "map fst (rule_modules (x # fs)) =
      map fst (rule_modules [x]) @ map fst (rule_modules fs)"
    by (subst rule_modules_Cons) simp
  with rest le single show ?case
    by (simp add: sorted_append)
qed

lemma rule_modules_values:
  "(fn, fs) \<in> set (rule_modules files) \<Longrightarrow>
     \<exists>module. fs = dict_of_pairs (check_functions (getmembers module))"
  by (auto simp: rule_modules_def split: load_result.splits if_splits)

lemma dict_set_members:
  "x \<in> set (dict_set k v d) \<Longrightarrow> x = (k, v) \<or> x \<in> set d"
  by (induction d) (auto split: if_splits)

lemma register_members:
  "x \<in> set (register es d) \<Longrightarrow> x \<in> set es \<or> x \<in> set d"
proof (induction es arbitrary: d)
  case Nil
  then show ?case by (simp add: register_Nil)
next
  case (Cons e es)
  obtain k v where e: "e = (k, v)" by (cases e)
  from Cons.prems have "x \<in> set (register es (dict_set k v d))"
    by (simp add: e register_Cons)
  then have "x \<in> set es \<or> x \<in> set (dict_set k v d)"
    by (rule Cons.IH)
  then show ?case
    using dict_set_members [of x k v d] by (auto simp: e)
qed

lemma sorted_dict_of_getmembers:
  "sorted_wrt (<) (map fst (dict_of_pairs (check_functions (getmembers module))))"
proof -
  have "sorted (map fst (getmembers module))"
    by (simp add: getmembers_def)
  then have "sorted (map fst (check_functions (getmembers module)))"
    by (rule sorted_check_functions)
  then show ?thesis
    unfolding dict_of_pairs_register by (rule register_fresh_sorted)
qed

lemma first_discover_sorted:
  assumes "discover (Some entries) (init_orchestrator dir) = (Inr r0, s)"
  shows "sorted_wrt (<) (map fst (checkers s)) \<and>
         (\<forall>m\<in>set (checkers s). sorted_wrt (<) (map fst (snd m)))"
proof -
  let ?es = "rule_modules (checker_files entries)"
  have all: "\<forall>f\<in>set (checker_files entries). loads f"
    using assms by (rule discover_Inr_all_load)
  from discover_all_load [OF all, of "init_orchestrator dir"] assms
  have reg: "checkers s = register ?es []"
    by (auto simp: init_orchestrator_def)
  have "sorted (map fst ?es)"
    using sorted_checker_files by (rule sorted_rule_modules)
  then have keys: "sorted_wrt (<) (map fst (checkers s))"
    unfolding reg by (rule register_fresh_sorted)
  have vals: "\<forall>m\<in>set (checkers s). sorted_wrt (<) (map fst (snd m))"
  proof
    fix m assume "m \<in> set (checkers s)"
    then have "m \<in> set ?es"
      unfolding reg using register_members [of m ?es "[]"] by simp
    then obtain module where "snd m = dict_of_pairs (check_functions (getmembers module))"
      using rule_modules_values [of "fst m" "snd m" "checker_files entries"] by auto
    then show "sorted_wrt (<) (map fst (snd m))"
      by (simp add: sorted_dict_of_getmembers)
  qed
  from keys vals show ?thesis by (rule conjI)
qed

text \<open>
  A further \<^verbatim>\<open>discover()\<close> leaves the keys that are there at their positions and
  appends the new ones, in increasing order.
\<close>

lemma register_keys_new:
  fixes es :: "('a::linorder \<times> 'b) list"
  assumes "sorted (map fst es)"
  shows "\<exists>new. map fst (register es d) = map fst d @ new \<and> sorted_wrt (<) new \<and>
               set new = fst ` set es - fst ` set d"
  using assms
proof (induction es arbitrary: d)
  case Nil
  show ?case by (simp add: register_Nil)
next
  case (Cons e es)
  obtain k v where e: "e = (k, v)" by (cases e)
  let ?d = "dict_set k v d"
  have s: "sorted (map fst es)" and k_le: "\<forall>b\<in>fst ` set es. k \<le> b"
    using Cons.prems by (auto simp: e)
  obtain new where new: "map fst (register es ?d) = map fst ?d @ new"
      and sorted_new: "sorted_wrt (<) new" and set_new: "set new = fst ` set es - fst ` set ?d"
    using Cons.IH [OF s, of ?d] by blast
  have keys: "fst ` set ?d = insert k (fst ` set d)"
    by (rule key_set_dict_set)
  show ?case
  proof (cases "k \<in> fst ` set d")
    case True
    have 1: "map fst (register (e # es) d) = map fst d @ new"
      using new True by (simp add: e register_Cons keys_dict_set)
    have 2: "set new = fst ` set (e # es) - fst ` set d"
      using set_new keys True by (auto simp: e)
    from 1 sorted_new 2 show ?thesis by blast
  next
    case False
    have 1: "map fst (register (e # es) d) = map fst d @ (k # new)"
      using new False by (simp add: e register_Cons keys_dict_set)
    have 2: "set (k # new) = fst ` set (e # es) - fst ` set d"
      using set_new keys False by (auto simp: e)
    have "\<forall>x\<in>set new. k < x"
    proof
      fix x assume "x \<in> set new"
      then have "x \<in> fst ` set es" and "x \<noteq> k"
        using set_new keys by auto
      with k_le show "k < x" by force
    qed
    with sorted_new have 3: "sorted_wrt (<) (k # new)" by simp
    from 1 3 2 show ?thesis by blast
  qed
qed

lemma further_discover_order:
  assumes "discover (Some entries) s0 = (Inr r, s)"
  shows "(\<exists>new. map fst (checkers s) = map fst (checkers s0) @ new \<and> sorted_wrt (<) new \<and>
                set new = fst ` set (rule_modules (checker_files entries)) -
                          fst ` set (checkers s0)) \<and>
         ((\<forall>m\<in>set (checkers s0). sorted_wrt (<) (map fst (snd m))) \<longrightarrow>
          (\<forall>m\<in>set (checkers s). sorted_wrt (<) (map fst (snd m))))"
proof -
  let ?es = "rule_modules (checker_files entries)"
  have all: "\<forall>f\<in>set (checker_files entries). loads f"
    using assms by (rule discover_Inr_all_load)
  from discover_all_load [OF all, of s0] assms
  have reg: "checkers s = register ?es (checkers s0)"
    by auto
  have "sorted (map fst ?es)"
    using sorted_checker_files by (rule sorted_rule_modules)
  then have keys: "\<exists>new. map fst (checkers s) = map fst (checkers s0) @ new \<and>
      sorted_wrt (<) new \<and> set new = fst ` set ?es - fst ` set (checkers s0)"
    unfolding reg by (rule register_keys_new)
  have vals: "\<forall>m\<in>set (checkers s). sorted_wrt (<) (map fst (snd m))"
    if old: "\<forall>m\<in>set (checkers s0). sorted_wrt (<) (map fst (snd m))"
  proof
    fix m assume "m \<in> set (checkers s)"
    then have "m \<in> set ?es \<or> m \<in> set (checkers s0)"
      unfolding reg by (rule register_members)
    then show "sorted_wrt (<) (map fst (snd m))"
    proof
      assume "m \<in> set ?es"
      then obtain module where "snd m = dict_of_pairs (check_functions (getmembers module))"
        using rule_modules_values [of "fst m" "snd m" "checker_files entries"] by auto
      then show ?thesis by (simp add: sorted_dict_of_getmembers)
    next
      assume "m \<in> set (checkers s0)"
      with old show ?thesis by blast
    qed
  qed
  from keys vals show ?thesis by blast
qed

text \<open>What a run does depends on the checkers only through what their calls return.\<close>

lemma first_escape_cong:
  "map (\<lambda>(fn, n, f). (fn, n, f model kwargs)) sel =
   map (\<lambda>(fn, n, f). (fn, n, f model' kwargs')) sel' \<Longrightarrow>
     first_escape model kwargs sel = first_escape model' kwargs' sel'"
proof (induction sel arbitrary: sel')
  case Nil
  then show ?case by simp
next
  case (Cons x sel)
  obtain fn n f where x: "x = (fn, n, f)" by (cases x)
  obtain y rest where s: "sel' = y # rest"
    using Cons.prems by (cases sel') auto
  obtain fn' n' f' where y: "y = (fn', n', f')" by (cases y)
  have eq: "f' model' kwargs' = f model kwargs" and
       rest: "map (\<lambda>(fn, n, f). (fn, n, f model kwargs)) sel =
              map (\<lambda>(fn, n, f). (fn, n, f model' kwargs')) rest"
    using Cons.prems by (auto simp: x s y)
  show ?case
    by (simp add: x s y eq Cons.IH [OF rest] split: option.splits)
qed

lemma map_outcome_cong:
  "map (\<lambda>(fn, n, f). (fn, n, f model kwargs)) sel =
   map (\<lambda>(fn, n, f). (fn, n, f model' kwargs')) sel' \<Longrightarrow>
     map (\<lambda>(fn, n, f). g fn n (f model kwargs)) sel =
     map (\<lambda>(fn, n, f). g fn n (f model' kwargs')) sel'"
proof -
  assume a: "map (\<lambda>(fn, n, f). (fn, n, f model kwargs)) sel =
             map (\<lambda>(fn, n, f). (fn, n, f model' kwargs')) sel'"
  have "map (\<lambda>(fn, n, f). g fn n (f model kwargs)) sel =
        map (\<lambda>(fn, n, out). g fn n out) (map (\<lambda>(fn, n, f). (fn, n, f model kwargs)) sel)"
    by (simp add: comp_def case_prod_unfold)
  also have "\<dots> = map (\<lambda>(fn, n, out). g fn n out)
                     (map (\<lambda>(fn, n, f). (fn, n, f model' kwargs')) sel')"
    by (simp only: a)
  also have "\<dots> = map (\<lambda>(fn, n, f). g fn n (f model' kwargs')) sel'"
    by (simp add: comp_def case_prod_unfold)
  finally show ?thesis .
qed

lemma filter_outcome_cong:
  "map (\<lambda>(fn, n, f). (fn, n, f model kwargs)) sel =
   map (\<lambda>(fn, n, f). (fn, n, f model' kwargs')) sel' \<Longrightarrow>
     length (filter (\<lambda>(fn, n, f). P (f model kwargs)) sel) =
     length (filter (\<lambda>(fn, n, f). P (f model' kwargs')) sel')"
proof -
  assume a: "map (\<lambda>(fn, n, f). (fn, n, f model kwargs)) sel =
             map (\<lambda>(fn, n, f). (fn, n, f model' kwargs')) sel'"
  have "length (filter (\<lambda>(fn, n, f). P (f model kwargs)) sel) =
        length (filter (\<lambda>(fn, n, out). P out) (map (\<lambda>(fn, n, f). (fn, n, f model kwargs)) sel))"
    by (simp add: filter_map comp_def case_prod_unfold)
  also have "\<dots> = length (filter (\<lambda>(fn, n, out). P out)
                             (map (\<lambda>(fn, n, f). (fn, n, f model' kwargs')) sel'))"
    by (simp only: a)
  also have "\<dots> = length (filter (\<lambda>(fn, n, f). P (f model' kwargs')) sel')"
    by (simp add: filter_map comp_def case_prod_unfold)
  finally show ?thesis .
qed

lemma run_same_outcomes:
  assumes "run lw model flt kwargs s = (Inr rep, s')"
    and "checkers s2 \<noteq> []" and "isinstance_ifc model2"
    and "map (\<lambda>(fn, n, f). (fn, n, f model2 kwargs2)) (selected lw flt2 (checkers s2)) =
         map (\<lambda>(fn, n, f). (fn, n, f model kwargs)) (selected lw flt (checkers s))"
  shows "\<exists>rep2 s2'. run lw model2 flt2 kwargs2 s2 = (Inr rep2, s2') \<and>
           results rep2 = results rep \<and> summary rep2 = summary rep"
proof -
  let ?sel = "selected lw flt (checkers s)"
  let ?sel2 = "selected lw flt2 (checkers s2)"
  have "first_escape model kwargs ?sel = None"
    using run_Inr_preconditions [OF assms(1)] by simp
  then have "first_escape model2 kwargs2 ?sel2 = None"
    using first_escape_cong [OF assms(4)] by simp
  from run_final [OF assms(2) assms(3) this]
  obtain rep2 s2' where r2: "run lw model2 flt2 kwargs2 s2 = (Inr rep2, s2')"
    by blast
  note a = run_report [OF assms(1)]
  note b = run_report [OF r2]
  have len: "length ?sel2 = length ?sel"
    using assms(4) by (rule map_eq_imp_length_eq)
  have res: "results rep2 = results rep"
    unfolding a(1) b(1) using admit_all_cong [OF assms(4)] by simp
  have "total_checkers (summary rep2) = total_checkers (summary rep)"
    unfolding a(3) b(3) by (rule len)
  moreover have "successful_checkers (summary rep2) = successful_checkers (summary rep)"
    unfolding a(4) b(4) using assms(4) by (rule filter_outcome_cong)
  moreover have "failed_checkers (summary rep2) = failed_checkers (summary rep)"
    unfolding a(5) b(5) using assms(4) by (rule filter_outcome_cong)
  moreover have "total_results (summary rep2) = total_results (summary rep)"
    unfolding a(2) b(2) using map_outcome_cong [OF assms(4), of admitted] by simp
  moreover have "checker_details (summary rep2) = checker_details (summary rep)"
    unfolding a(6) b(6) using assms(4) by (rule details_cong)
  ultimately have "summary rep2 = summary rep"
    by simp
  with r2 res show ?thesis by blast
qed

lemma run_walls_doors:
  "run ascii_lower (IfcFile ()) None () (snd (discover (Some files_walls_doors) fresh)) =
     (Inr \<lparr>results = [add_metadata ''checker_doors.py'' ''check_door_accessibility''
                        (door_result ''pass''),
                      add_metadata ''checker_walls.py'' ''check_wall_fire_rating''
                        (door_result ''pass'')],
           summary = \<lparr>total_checkers = 2, successful_checkers = 2, failed_checkers = 0,
                      total_results = 2,
                      checker_details =
                        [DetailSuccess ''checker_doors.py::check_door_accessibility'' 1,
                         DetailSuccess ''checker_walls.py::check_wall_fire_rating'' 1]\<rparr>,
           log = [LogScanning ''tools'', LogFoundFiles 2,
                  LogFoundFunctions ''checker_doors.py'' [''check_door_accessibility''],
                  LogFoundFunctions ''checker_walls.py'' [''check_wall_fire_rating''],
                  LogBannerOpen, LogStart, LogBannerClose,
                  LogRunning ''checker_doors.py::check_door_accessibility'', LogResults 1,
                  LogRunning ''checker_walls.py::check_wall_fire_rating'', LogResults 1,
                  LogBannerOpen, LogComplete, LogCheckersRun 2 2, LogCollected 2,
                  LogBannerClose]\<rparr>,
      \<lparr>tools_dir = ''tools'',
       checkers = [(''checker_doors.py'', [(''check_door_accessibility'', check_ok 11)]),
                   (''checker_walls.py'', [(''check_wall_fire_rating'', check_ok 12)])],
       loaded_modules = [(''checker_doors.py'', doors_module), (''checker_walls.py'', walls_module)],
       execution_log = [LogScanning ''tools'', LogFoundFiles 2,
                  LogFoundFunctions ''checker_doors.py'' [''check_door_accessibility''],
                  LogFoundFunctions ''checker_walls.py'' [''check_wall_fire_rating''],
                  LogBannerOpen, LogStart, LogBannerClose,
                  LogRunning ''checker_doors.py::check_door_accessibility'', LogResults 1,
                  LogRunning ''checker_walls.py::check_wall_fire_rating'', LogResults 1,
                  LogBannerOpen, LogComplete, LogCheckersRun 2 2, LogCollected 2,
                  LogBannerClose]\<rparr>)"
  unfolding discover_files_walls_doors snd_conv
  by (simp add: eval_run check_ok_def)

text \<open>
  C7 (amended). The \<^verbatim>\<open>results\<close> of a report follow the registry: the selected checkers
  are called in registry order (modules in dict order, the functions of a module in dict
  order), and each call puts the dicts of its list, in the order of the list and up to
  the first element that the validation rejects, at the end of \<^verbatim>\<open>all_results\<close>. When
  the checkers return fresh dicts (no dict object is returned twice in the run), the
  results are therefore the concatenation, in registry order, of what each call admits:
  an initial part of the dicts it returned, tagged, and all of them when the output
  passes the validation. A run in which the selected checkers have the same names and
  return the same outputs, in the same order, gives a report with the same results and
  the same summary, whatever else differs. In the registry that one \<^verbatim>\<open>discover()\<close> on a
  new orchestrator builds, the module file names are strictly increasing and so are the
  function names of each module. A further \<^verbatim>\<open>discover()\<close> keeps the modules that are
  registered at their positions and puts the modules that it registers for the first
  time after them, in increasing order of their file names; so after it the dict order
  of the modules need not be the sorted one.
\<close>

theorem results_order:
  assumes "run lw model flt kwargs s = (Inr rep, s')"
  shows "results rep = map snd (admit_all model kwargs (selected lw flt (checkers s)) []) \<and>
         (fresh_dicts model kwargs (selected lw flt (checkers s)) \<longrightarrow>
            results rep =
              concat (map (\<lambda>(fn, n, f). admitted fn n (f model kwargs))
                        (selected lw flt (checkers s))) \<and>
            (\<forall>(fn, n, f) \<in> set (selected lw flt (checkers s)).
               prefix (admitted fn n (f model kwargs))
                 (map (add_metadata fn n) (emitted (f model kwargs))) \<and>
               (valid_output (f model kwargs) \<longrightarrow>
                  admitted fn n (f model kwargs) =
                    map (add_metadata fn n) (emitted (f model kwargs))))) \<and>
         (\<forall>model2 flt2 kwargs2 s2.
            checkers s2 \<noteq> [] \<and> isinstance_ifc model2 \<and>
            map (\<lambda>(fn, n, f). (fn, n, f model2 kwargs2)) (selected lw flt2 (checkers s2)) =
              map (\<lambda>(fn, n, f). (fn, n, f model kwargs)) (selected lw flt (checkers s)) \<longrightarrow>
            (\<exists>rep2 s2'. run lw model2 flt2 kwargs2 s2 = (Inr rep2, s2') \<and>
               results rep2 = results rep \<and> summary rep2 = summary rep)) \<and>
         (\<forall>dir entries r0.
            discover (Some entries) (init_orchestrator dir) = (Inr r0, s) \<longrightarrow>
              sorted_wrt (<) (map fst (checkers s)) \<and>
              (\<forall>m\<in>set (checkers s). sorted_wrt (<) (map fst (snd m)))) \<and>
         (\<forall>entries s0 r.
            discover (Some entries) s0 = (Inr r, s) \<longrightarrow>
              (\<exists>new. map fst (checkers s) = map fst (checkers s0) @ new \<and>
                      sorted_wrt (<) new \<and>
                      set new = fst ` set (rule_modules (checker_files entries)) -
                                fst ` set (checkers s0)) \<and>
              ((\<forall>m\<in>set (checkers s0). sorted_wrt (<) (map fst (snd m))) \<longrightarrow>
               (\<forall>m\<in>set (checkers s). sorted_wrt (<) (map fst (snd m)))))"
proof -
  let ?sel = "selected lw flt (checkers s)"
  note r = run_report [OF assms]
  have fresh: "results rep =
        concat (map (\<lambda>(fn, n, f). admitted fn n (f model kwargs)) ?sel) \<and>
      (\<forall>(fn, n, f) \<in> set ?sel.
         prefix (admitted fn n (f model kwargs))
           (map (add_metadata fn n) (emitted (f model kwargs))) \<and>
         (valid_output (f model kwargs) \<longrightarrow>
            admitted fn n (f model kwargs) =
              map (add_metadata fn n) (emitted (f model kwargs))))"
    if f: "fresh_dicts model kwargs ?sel"
  proof (intro conjI)
    show "results rep = concat (map (\<lambda>(fn, n, f). admitted fn n (f model kwargs)) ?sel)"
      unfolding r(1) using f by (rule admit_all_fresh_results)
    show "\<forall>(fn, n, f) \<in> set ?sel.
         prefix (admitted fn n (f model kwargs))
           (map (add_metadata fn n) (emitted (f model kwargs))) \<and>
         (valid_output (f model kwargs) \<longrightarrow>
            admitted fn n (f model kwargs) =
              map (add_metadata fn n) (emitted (f model kwargs)))"
    proof (intro ballI)
      fix x
      assume x: "x \<in> set ?sel"
      obtain fn n g where xe: "x = (fn, n, g)" by (cases x)
      have "distinct (returned_ids (g model kwargs))"
        using f x [unfolded xe] by (rule fresh_dicts_each)
      then show "case x of (fn, n, f) \<Rightarrow>
         prefix (admitted fn n (f model kwargs))
           (map (add_metadata fn n) (emitted (f model kwargs))) \<and>
         (valid_output (f model kwargs) \<longrightarrow>
            admitted fn n (f model kwargs) =
              map (add_metadata fn n) (emitted (f model kwargs)))"
        unfolding xe prod.case by (rule admitted_tagged)
    qed
  qed
  have again: "\<forall>model2 flt2 kwargs2 s2.
      checkers s2 \<noteq> [] \<and> isinstance_ifc model2 \<and>
      map (\<lambda>(fn, n, f). (fn, n, f model2 kwargs2)) (selected lw flt2 (checkers s2)) =
        map (\<lambda>(fn, n, f). (fn, n, f model kwargs)) ?sel \<longrightarrow>
      (\<exists>rep2 s2'. run lw model2 flt2 kwargs2 s2 = (Inr rep2, s2') \<and>
         results rep2 = results rep \<and> summary rep2 = summary rep)"
    by (intro allI impI, elim conjE, rule run_same_outcomes [OF assms]) assumption+
  have first: "\<forall>dir entries r0.
      discover (Some entries) (init_orchestrator dir) = (Inr r0, s) \<longrightarrow>
        sorted_wrt (<) (map fst (checkers s)) \<and>
        (\<forall>m\<in>set (checkers s). sorted_wrt (<) (map fst (snd m)))"
    using first_discover_sorted by blast
  have further: "\<forall>entries s0 r.
      discover (Some entries) s0 = (Inr r, s) \<longrightarrow>
        (\<exists>new. map fst (checkers s) = map fst (checkers s0) @ new \<and>
                sorted_wrt (<) new \<and>
                set new = fst ` set (rule_modules (checker_files entries)) -
                          fst ` set (checkers s0)) \<and>
        ((\<forall>m\<in>set (checkers s0). sorted_wrt (<) (map fst (snd m))) \<longrightarrow>
         (\<forall>m\<in>set (checkers s). sorted_wrt (<) (map fst (snd m))))"
  proof (intro allI impI)
    fix entries r s0
    assume "discover (Some entries) s0 = (Inr r, s)"
    then show "(\<exists>new. map fst (checkers s) = map fst (checkers s0) @ new \<and>
                sorted_wrt (<) new \<and>
                set new = fst ` set (rule_modules (checker_files entries)) -
                          fst ` set (checkers s0)) \<and>
        ((\<forall>m\<in>set (checkers s0). sorted_wrt (<) (map fst (snd m))) \<longrightarrow>
         (\<forall>m\<in>set (checkers s). sorted_wrt (<) (map fst (snd m))))"
      by (rule further_discover_order)
  qed
  have order: "results rep = map snd (admit_all model kwargs ?sel [])"
    by (rule r(1))
  from fresh have fresh': "fresh_dicts model kwargs ?sel \<longrightarrow>
      results rep =
        concat (map (\<lambda>(fn, n, f). admitted fn n (f model kwargs)) ?sel) \<and>
      (\<forall>(fn, n, f) \<in> set ?sel.
         prefix (admitted fn n (f model kwargs))
           (map (add_metadata fn n) (emitted (f model kwargs))) \<and>
         (valid_output (f model kwargs) \<longrightarrow>
            admitted fn n (f model kwargs) =
              map (add_metadata fn n) (emitted (f model kwargs))))"
    by blast
  from order fresh' again first further show ?thesis by (intro conjI)
qed

lemma selected_walls_doors:
  "selected lw None (checkers (snd (discover (Some files_walls_doors) fresh))) =
     [(''checker_doors.py'', ''check_door_accessibility'', check_ok 11),
      (''checker_walls.py'', ''check_wall_fire_rating'', check_ok 12)]"
  by (simp add: discover_files_walls_doors selected_def skipped_def)

theorem results_order_witness:
  "run ascii_lower (IfcFile ()) None () (snd (discover (Some files_walls_doors) fresh)) =
     (Inr (projr (fst (run ascii_lower (IfcFile ()) None ()
                         (snd (discover (Some files_walls_doors) fresh))))),
      snd (run ascii_lower (IfcFile ()) None () (snd (discover (Some files_walls_doors) fresh)))) \<and>
   fresh_dicts (IfcFile ()) ()
     (selected ascii_lower None (checkers (snd (discover (Some files_walls_doors) fresh)))) \<and>
   results (projr (fst (run ascii_lower (IfcFile ()) None ()
                          (snd (discover (Some files_walls_doors) fresh))))) =
     concat (map (\<lambda>(fn, n, f). admitted fn n (f (IfcFile ()) ()))
       (selected ascii_lower None (checkers (snd (discover (Some files_walls_doors) fresh))))) \<and>
   results (projr (fst (run ascii_lower (IfcFile ()) None ()
                          (snd (discover (Some files_walls_doors) fresh))))) =
     [add_metadata ''checker_doors.py'' ''check_door_accessibility'' (door_result ''pass''),
      add_metadata ''checker_walls.py'' ''check_wall_fire_rating'' (door_result ''pass'')] \<and>
   discover (Some files_walls_doors) (init_orchestrator ''tools'') =
     (Inr [(''checker_doors.py'', [''check_door_accessibility'']),
           (''checker_walls.py'', [''check_wall_fire_rating''])],
      snd (discover (Some files_walls_doors) fresh)) \<and>
   sorted_wrt (<) (map fst (checkers (snd (discover (Some files_walls_doors) fresh)))) \<and>
   (\<exists>rep2 s2'.
      run ascii_lower (IfcFile ()) None ()
        (snd (run ascii_lower (IfcFile ()) None () (snd (discover (Some files_walls_doors) fresh)))) =
        (Inr rep2, s2') \<and>
      results rep2 =
        [add_metadata ''checker_doors.py'' ''check_door_accessibility'' (door_result ''pass''),
         add_metadata ''checker_walls.py'' ''check_wall_fire_rating'' (door_result ''pass'')]) \<and>
   discover (Some files_walls_doors) (snd (discover (Some files_walls) fresh)) =
     (Inr [(''checker_walls.py'', [''check_wall_fire_rating'']),
           (''checker_doors.py'', [''check_door_accessibility''])],
      snd (discover (Some files_walls_doors) (snd (discover (Some files_walls) fresh)))) \<and>
   (\<exists>new. map fst (checkers (snd (discover (Some files_walls_doors)
                                       (snd (discover (Some files_walls) fresh))))) =
            [''checker_walls.py''] @ new \<and>
          sorted_wrt (<) new)"
proof -
  let ?s = "snd (discover (Some files_walls_doors) fresh)"
  let ?run = "run ascii_lower (IfcFile ()) None () ?s"
  have h: "?run = (Inr (projr (fst ?run)), snd ?run)"
    by (simp add: run_walls_doors)
  have f: "fresh_dicts (IfcFile ()) () (selected ascii_lower None (checkers ?s))"
    unfolding selected_walls_doors by (simp add: fresh_dicts_def returned_ids_def check_ok_def)
  have d: "discover (Some files_walls_doors) (init_orchestrator ''tools'') =
     (Inr [(''checker_doors.py'', [''check_door_accessibility'']),
           (''checker_walls.py'', [''check_wall_fire_rating''])], ?s)"
    using discover_files_walls_doors by (simp add: fresh_def)
  note t = results_order [OF h]
  have a: "results (projr (fst ?run)) =
      concat (map (\<lambda>(fn, n, f). admitted fn n (f (IfcFile ()) ()))
                (selected ascii_lower None (checkers ?s)))"
    using t [THEN conjunct2, THEN conjunct1, rule_format, OF f] by (rule conjunct1)
  have b: "results (projr (fst ?run)) =
     [add_metadata ''checker_doors.py'' ''check_door_accessibility'' (door_result ''pass''),
      add_metadata ''checker_walls.py'' ''check_wall_fire_rating'' (door_result ''pass'')]"
    by (simp add: run_walls_doors)
  have c: "sorted_wrt (<) (map fst (checkers ?s))"
    using t [THEN conjunct2, THEN conjunct2, THEN conjunct2, THEN conjunct1, rule_format, OF d]
    by (rule conjunct1)
  have same: "checkers (snd ?run) = checkers ?s"
    by (rule run_checkers)
  have again: "checkers (snd ?run) \<noteq> [] \<and> isinstance_ifc (IfcFile ()) \<and>
      map (\<lambda>(fn, n, f). (fn, n, f (IfcFile ()) ())) (selected ascii_lower None (checkers (snd ?run))) =
      map (\<lambda>(fn, n, f). (fn, n, f (IfcFile ()) ())) (selected ascii_lower None (checkers ?s))"
    unfolding same by (simp add: discover_files_walls_doors)
  have e: "\<exists>rep2 s2'. run ascii_lower (IfcFile ()) None () (snd ?run) = (Inr rep2, s2') \<and>
      results rep2 =
        [add_metadata ''checker_doors.py'' ''check_door_accessibility'' (door_result ''pass''),
         add_metadata ''checker_walls.py'' ''check_wall_fire_rating'' (door_result ''pass'')]"
    using t [THEN conjunct2, THEN conjunct2, THEN conjunct1, rule_format, OF again]
    unfolding b by blast
  let ?s0 = "snd (discover (Some files_walls) fresh)"
  let ?s1 = "snd (discover (Some files_walls_doors) ?s0)"
  let ?run1 = "run ascii_lower (IfcFile ()) None () ?s1"
  have h1: "?run1 = (Inr (projr (fst ?run1)), snd ?run1)"
    using run_after_rediscover by (simp add: prod_eq_iff)
  have d1: "discover (Some files_walls_doors) ?s0 =
     (Inr [(''checker_walls.py'', [''check_wall_fire_rating'']),
           (''checker_doors.py'', [''check_door_accessibility''])], ?s1)"
    by (simp add: rediscover_walls_doors_after_walls)
  have old: "map fst (checkers ?s0) = [''checker_walls.py'']"
    by (simp add: discover_files_walls)
  have g: "\<exists>new. map fst (checkers ?s1) = [''checker_walls.py''] @ new \<and> sorted_wrt (<) new"
    using results_order [OF h1, THEN conjunct2, THEN conjunct2, THEN conjunct2, THEN conjunct2,
        rule_format, OF d1, THEN conjunct1]
    unfolding old by blast
  from h f a b d c e d1 g show ?thesis by (intro conjI)
qed

text \<open>
  After \<^verbatim>\<open>discover()\<close> over a directory with \<^verbatim>\<open>checker_walls.py\<close> and a second
  \<^verbatim>\<open>discover()\<close> over the same directory with \<^verbatim>\<open>checker_doors.py\<close> added, the record
  of the walls checker comes first in the results.
\<close>

theorem results_not_in_filename_order:
  "results (projr (fst (run ascii_lower (IfcFile ()) None ()
      (snd (discover (Some files_walls_doors) (snd (discover (Some files_walls) fresh))))))) =
     [add_metadata ''checker_walls.py'' ''check_wall_fire_rating'' (door_result ''pass''),
      add_metadata ''checker_doors.py'' ''check_door_accessibility'' (door_result ''pass'')] \<and>
   add_metadata ''checker_walls.py'' ''check_wall_fire_rating'' (door_result ''pass'')
     ''_checker_file'' = Some (PStr ''checker_walls.py'') \<and>
   add_metadata ''checker_doors.py'' ''check_door_accessibility'' (door_result ''pass'')
     ''_checker_file'' = Some (PStr ''checker_doors.py'') \<and>
   ''checker_doors.py'' < ''checker_walls.py'' \<and>
   \<not> sorted [''checker_walls.py'', ''checker_doors.py'']"
  by (simp add: run_after_rediscover add_metadata_provenance)

end
